theory Spec2Isabelle
  imports Complex_Main
begin

section \<open>Python values and exceptions\<close>

text \<open>
  Both scripts work on parsed JSON. A parsed document is a Python value built from
  \<open>None\<close>, booleans, integers, strings, lists and dictionaries; a dictionary is kept
  as an association list in arrival order, read with \<open>map_of\<close>. JSON numbers with a
  fraction are not part of the model.
\<close>

datatype json =
    JNull
  | JBool bool
  | JInt int
  | JStr string
  | JList "json list"
  | JDict "(string \<times> json) list"

text \<open>The exception classes that the two scripts can meet. \<open>JSONDecodeError\<close> is what
  \<open>response.json()\<close> raises; \<open>OtherException\<close> is any class not listed.\<close>

datatype py_exception =
    Timeout
  | ConnectionError
  | HTTPError
  | RequestException
  | JSONDecodeError
  | KeyError
  | TypeError
  | ValueError
  | AttributeError
  | OverflowError
  | OtherException

text \<open>Truth value of a Python object, as \<open>if x\<close>, \<open>not x\<close> and \<open>x or y\<close> test it.\<close>

fun truthy :: "json \<Rightarrow> bool" where
  "truthy JNull = False"
| "truthy (JBool b) = b"
| "truthy (JInt n) = (n \<noteq> 0)"
| "truthy (JStr s) = (s \<noteq> [])"
| "truthy (JList xs) = (xs \<noteq> [])"
| "truthy (JDict d) = (d \<noteq> [])"

text \<open>
  \<open>obj[key]\<close> with a string key: a dictionary raises KeyError on a missing key, every
  other value raises TypeError (not subscriptable, or indices must be integers).
\<close>

fun getitem :: "json \<Rightarrow> string \<Rightarrow> py_exception + json" where
  "getitem (JDict d) k = (case map_of d k of None \<Rightarrow> Inl KeyError | Some v \<Rightarrow> Inr v)"
| "getitem _ k = Inl TypeError"

text \<open>
  Iteration (\<open>for x in obj\<close>, \<open>list.extend(obj)\<close>): a list yields its elements, a
  dictionary its keys, a string its characters; the other values are not iterable.
\<close>

fun py_iter :: "json \<Rightarrow> py_exception + json list" where
  "py_iter (JList xs) = Inr xs"
| "py_iter (JDict d) = Inr (map (\<lambda>kv. JStr (fst kv)) d)"
| "py_iter (JStr s) = Inr (map (\<lambda>c. JStr [c]) s)"
| "py_iter _ = Inl TypeError"

text \<open>\<open>needle in hay\<close> on strings: \<open>needle\<close> occurs as a contiguous substring.\<close>

fun str_contains :: "string \<Rightarrow> string \<Rightarrow> bool" where
  "str_contains needle [] = (needle = [])"
| "str_contains needle (c # cs) =
     (take (length needle) (c # cs) = needle \<or> str_contains needle cs)"

text \<open>
  \<open>sep.join(items)\<close>: every item must be a string, otherwise TypeError.
\<close>

fun intersperse_str :: "string \<Rightarrow> string list \<Rightarrow> string" where
  "intersperse_str sep [] = []"
| "intersperse_str sep [x] = x"
| "intersperse_str sep (x # y # ys) = x @ sep @ intersperse_str sep (y # ys)"

fun str_items :: "json list \<Rightarrow> py_exception + string list" where
  "str_items [] = Inr []"
| "str_items (JStr s # xs) =
     (case str_items xs of Inl e \<Rightarrow> Inl e | Inr ss \<Rightarrow> Inr (s # ss))"
| "str_items (_ # xs) = Inl TypeError"

definition py_join :: "string \<Rightarrow> json list \<Rightarrow> py_exception + string" where
  "py_join sep items =
     (case str_items items of Inl e \<Rightarrow> Inl e | Inr ss \<Rightarrow> Inr (intersperse_str sep ss))"

text \<open>
  A list comprehension \<open>[x[key] for x in items]\<close>: the first failing subscript
  raises and no list is built.
\<close>

fun getitem_each :: "string \<Rightarrow> json list \<Rightarrow> py_exception + json list" where
  "getitem_each k [] = Inr []"
| "getitem_each k (x # xs) =
     (case getitem x k of
        Inl e \<Rightarrow> Inl e
      | Inr v \<Rightarrow> (case getitem_each k xs of Inl e \<Rightarrow> Inl e | Inr vs \<Rightarrow> Inr (v # vs)))"

section \<open>Responses\<close>

text \<open>
  A response of the \<open>requests\<close> library, as far as the two scripts read it: the
  status code, the result of \<open>response.json()\<close> (\<open>None\<close> when the body does not parse
  and \<open>json()\<close> raises), and the two rate-limit headers. A header is absent, or its
  text is one that \<open>int()\<close> reads as the given integer, or one that \<open>int()\<close> rejects
  with ValueError.
\<close>

datatype header_value = Absent | IntText int | NotInt

record response =
  status_code :: int
  json_body :: "json option"
  x_ratelimit_remaining :: header_value
  x_ratelimit_reset :: header_value

text \<open>
  \<open>response.raise_for_status()\<close> raises HTTPError for a status from 400 to 599.
  \<open>bool(response)\<close> is \<open>response.ok\<close>: true unless \<open>raise_for_status\<close> would raise.
\<close>

definition raise_for_status :: "response \<Rightarrow> py_exception + unit" where
  "raise_for_status r =
     (if 400 \<le> status_code r \<and> status_code r < 600 then Inl HTTPError else Inr ())"

definition response_ok :: "response \<Rightarrow> bool" where
  "response_ok r = (case raise_for_status r of Inl e \<Rightarrow> False | Inr u \<Rightarrow> True)"

definition json_of :: "response \<Rightarrow> py_exception + json" where
  "json_of r = (case json_body r of None \<Rightarrow> Inl JSONDecodeError | Some v \<Rightarrow> Inr v)"

section \<open>lfs-repos.py: transport\<close>

text \<open>
  The three URLs the script builds with f-strings. The formatted arguments are kept
  as they are: the base URL, the organisation, the repository and branch names (any
  JSON value, as read from the listing) and the page number.
\<close>

datatype url =
    OrgReposUrl string string nat
  | BranchesUrl string string json nat
  | GitattributesUrl string string json json

record config =
  GHES_URL :: string
  ORG_NAME :: string

text \<open>
  The remote side. \<open>session.get\<close> either returns a response or raises. The network is
  a function of the number of requests sent so far and of the URL, so that it may answer
  the same URL differently each time. The world records every \<open>session.get\<close> in
  \<open>requests\<close>, every call of \<open>safe_request\<close> in \<open>calls\<close>, and every completed call of
  \<open>check_lfs_usage\<close> with its result in \<open>probes\<close>. Console output and \<open>time.sleep\<close>
  with a constant argument leave no trace.
\<close>

datatype get_outcome = Returns response | Raises py_exception

type_synonym net = "nat \<Rightarrow> url \<Rightarrow> get_outcome"

record world =
  requests :: "url list"
  calls :: "url list"
  probes :: "(json \<times> json \<times> bool) list"

definition session_get :: "net \<Rightarrow> url \<Rightarrow> world \<Rightarrow> get_outcome \<times> world" where
  "session_get net u w = (net (length (requests w)) u, w\<lparr>requests := requests w @ [u]\<rparr>)"

text \<open>
  The three \<open>except\<close> clauses of \<open>safe_request\<close> catch Timeout, ConnectionError and
  every other \<open>requests.exceptions.RequestException\<close> (HTTPError is one); anything
  else propagates.
\<close>

fun caught_by_safe_request :: "py_exception \<Rightarrow> bool" where
  "caught_by_safe_request Timeout = True"
| "caught_by_safe_request ConnectionError = True"
| "caught_by_safe_request HTTPError = True"
| "caught_by_safe_request RequestException = True"
| "caught_by_safe_request _ = False"

text \<open>The body of the \<open>try\<close> block: one attempt.\<close>

definition attempt :: "net \<Rightarrow> url \<Rightarrow> world \<Rightarrow> (py_exception + response) \<times> world" where
  "attempt net u w =
     (case session_get net u w of
        (Raises e, w') \<Rightarrow> (Inl e, w')
      | (Returns r, w') \<Rightarrow>
          if status_code r = 404 then (Inr r, w')
          else (case raise_for_status r of
                  Inl e \<Rightarrow> (Inl e, w')
                | Inr _ \<Rightarrow> (Inr r, w')))"

text \<open>\<open>for attempt in range(3)\<close>, with the number of attempts left as the counter.\<close>

fun attempts :: "net \<Rightarrow> url \<Rightarrow> nat \<Rightarrow> world \<Rightarrow> (py_exception + response option) \<times> world" where
  "attempts net u 0 w = (Inr None, w)"
| "attempts net u (Suc n) w =
     (case attempt net u w of
        (Inr r, w') \<Rightarrow> (Inr (Some r), w')
      | (Inl e, w') \<Rightarrow>
          if caught_by_safe_request e then attempts net u n w' else (Inl e, w'))"

definition safe_request :: "net \<Rightarrow> url \<Rightarrow> world \<Rightarrow> (py_exception + response option) \<times> world" where
  "safe_request net u w = attempts net u 3 (w\<lparr>calls := calls w @ [u]\<rparr>)"

text \<open>\<open>if response\<close> on the result of \<open>safe_request\<close>: \<open>None\<close> is false.\<close>

fun response_truthy :: "response option \<Rightarrow> bool" where
  "response_truthy None = False"
| "response_truthy (Some r) = response_ok r"

section \<open>lfs-repos.py: offset paginators\<close>

text \<open>
  The loops \<open>while True\<close> of \<open>get_repositories\<close> and \<open>get_branches\<close>, from an arbitrary
  loop state: the accumulator, the page counter and the world. Neither loop is bounded,
  so the result is optional: \<open>None\<close> stands for a run that never returns. A raised
  exception is \<open>Inl\<close>.
\<close>

partial_function (option) get_repositories_loop ::
  "config \<Rightarrow> net \<Rightarrow> string \<Rightarrow> json list \<Rightarrow> nat \<Rightarrow> world
     \<Rightarrow> ((py_exception + json list) \<times> world) option" where
  "get_repositories_loop cfg net org repos page w =
     (case safe_request net (OrgReposUrl (GHES_URL cfg) org page) w of
        (Inl e, w') \<Rightarrow> Some (Inl e, w')
      | (Inr response, w') \<Rightarrow>
          if \<not> response_truthy response then Some (Inr repos, w')
          else (case json_of (the response) of
                  Inl e \<Rightarrow> Some (Inl e, w')
                | Inr data \<Rightarrow>
                    if \<not> truthy data then Some (Inr repos, w')
                    else (case py_iter data of
                            Inl e \<Rightarrow> Some (Inl e, w')
                          | Inr items \<Rightarrow>
                              get_repositories_loop cfg net org (repos @ items) (page + 1) w')))"

definition get_repositories ::
  "config \<Rightarrow> net \<Rightarrow> string \<Rightarrow> world \<Rightarrow> ((py_exception + json list) \<times> world) option" where
  "get_repositories cfg net org w = get_repositories_loop cfg net org [] 1 w"

partial_function (option) get_branches_loop ::
  "config \<Rightarrow> net \<Rightarrow> json \<Rightarrow> json list \<Rightarrow> nat \<Rightarrow> world
     \<Rightarrow> ((py_exception + json list) \<times> world) option" where
  "get_branches_loop cfg net repo_name branches page w =
     (case safe_request net (BranchesUrl (GHES_URL cfg) (ORG_NAME cfg) repo_name page) w of
        (Inl e, w') \<Rightarrow> Some (Inl e, w')
      | (Inr response, w') \<Rightarrow>
          if \<not> response_truthy response then Some (Inr branches, w')
          else (case json_of (the response) of
                  Inl e \<Rightarrow> Some (Inl e, w')
                | Inr data \<Rightarrow>
                    if \<not> truthy data then Some (Inr branches, w')
                    else (case py_iter data of
                            Inl e \<Rightarrow> Some (Inl e, w')
                          | Inr items \<Rightarrow>
                              (case getitem_each ''name'' items of
                                 Inl e \<Rightarrow> Some (Inl e, w')
                               | Inr names \<Rightarrow>
                                   get_branches_loop cfg net repo_name (branches @ names)
                                     (page + 1) w'))))"

definition get_branches ::
  "config \<Rightarrow> net \<Rightarrow> json \<Rightarrow> world \<Rightarrow> ((py_exception + json list) \<times> world) option" where
  "get_branches cfg net repo_name w = get_branches_loop cfg net repo_name [] 1 w"

section \<open>lfs-repos.py: the attributes-file probe and the audit\<close>

text \<open>
  \<open>base64.b64decode\<close> and \<open>bytes.decode("utf-8")\<close> belong to the standard library;
  they are parameters, \<open>None\<close> where they raise.
\<close>

record codec =
  b64decode :: "string \<Rightarrow> string option"
  utf8_decode :: "string \<Rightarrow> string option"

text \<open>
  The \<open>try\<close> block of \<open>check_lfs_usage\<close>: \<open>response.json().get("content", "")\<close>
  needs a dictionary, \<open>b64decode\<close> a string. It yields whether the marker occurs.
\<close>

definition marker_in_content :: "codec \<Rightarrow> response \<Rightarrow> py_exception + bool" where
  "marker_in_content cd r =
     (case json_of r of
        Inl e \<Rightarrow> Inl e
      | Inr (JDict d) \<Rightarrow>
          (case (case map_of d ''content'' of None \<Rightarrow> JStr [] | Some v \<Rightarrow> v) of
             JStr file_content \<Rightarrow>
               (case b64decode cd file_content of
                  None \<Rightarrow> Inl ValueError
                | Some raw \<Rightarrow>
                    (case utf8_decode cd raw of
                       None \<Rightarrow> Inl ValueError
                     | Some decoded_content \<Rightarrow> Inr (str_contains ''filter=lfs'' decoded_content)))
           | _ \<Rightarrow> Inl TypeError)
      | Inr _ \<Rightarrow> Inl AttributeError)"

definition lfs_verdict :: "codec \<Rightarrow> response option \<Rightarrow> bool" where
  "lfs_verdict cd response =
     (if response_truthy response then
        (if status_code (the response) = 404 then False
         else if status_code (the response) = 200 then
           (case marker_in_content cd (the response) of
              Inr True \<Rightarrow> True
            | _ \<Rightarrow> False)
         else False)
      else False)"

definition check_lfs_usage ::
  "config \<Rightarrow> codec \<Rightarrow> net \<Rightarrow> json \<Rightarrow> json \<Rightarrow> world \<Rightarrow> (py_exception + bool) \<times> world" where
  "check_lfs_usage cfg cd net repo_name branch_name w =
     (case safe_request net
             (GitattributesUrl (GHES_URL cfg) (ORG_NAME cfg) repo_name branch_name) w of
        (Inl e, w') \<Rightarrow> (Inl e, w')
      | (Inr response, w') \<Rightarrow>
          (Inr (lfs_verdict cd response),
           w'\<lparr>probes := probes w' @ [(repo_name, branch_name, lfs_verdict cd response)]\<rparr>))"

text \<open>
  The inner loop of \<open>main\<close>: \<open>lfs_used\<close> starts as "No"; the first branch whose probe is
  true sets it to "Yes" and leaves the loop.
\<close>

fun scan_branches ::
  "config \<Rightarrow> codec \<Rightarrow> net \<Rightarrow> json \<Rightarrow> json list \<Rightarrow> world \<Rightarrow> (py_exception + string) \<times> world" where
  "scan_branches cfg cd net repo_name [] w = (Inr ''No'', w)"
| "scan_branches cfg cd net repo_name (branch # rest) w =
     (case check_lfs_usage cfg cd net repo_name branch w of
        (Inl e, w') \<Rightarrow> (Inl e, w')
      | (Inr True, w') \<Rightarrow> (Inr ''Yes'', w')
      | (Inr False, w') \<Rightarrow> scan_branches cfg cd net repo_name rest w')"

text \<open>
  The body of the outer loop of \<open>main\<close> for one repository. The progress line formats
  \<open>repo_name\<close> with \<open><30\<close>, which \<open>None\<close>, lists and dictionaries do not support.
\<close>

record lfs_row =
  repository :: json
  branches_joined :: string
  using_lfs :: string

fun format_aligned_ok :: "json \<Rightarrow> bool" where
  "format_aligned_ok (JStr s) = True"
| "format_aligned_ok (JInt n) = True"
| "format_aligned_ok (JBool b) = True"
| "format_aligned_ok _ = False"

definition audit_repo ::
  "config \<Rightarrow> codec \<Rightarrow> net \<Rightarrow> json \<Rightarrow> world \<Rightarrow> ((py_exception + lfs_row) \<times> world) option" where
  "audit_repo cfg cd net repo w =
     (case getitem repo ''name'' of
        Inl e \<Rightarrow> Some (Inl e, w)
      | Inr repo_name \<Rightarrow>
          (case get_branches cfg net repo_name w of
             None \<Rightarrow> None
           | Some (Inl e, w1) \<Rightarrow> Some (Inl e, w1)
           | Some (Inr branches, w1) \<Rightarrow>
               (case scan_branches cfg cd net repo_name branches w1 of
                  (Inl e, w2) \<Rightarrow> Some (Inl e, w2)
                | (Inr lfs_used, w2) \<Rightarrow>
                    if \<not> format_aligned_ok repo_name then Some (Inl TypeError, w2)
                    else (case py_join '', '' branches of
                            Inl e \<Rightarrow> Some (Inl e, w2)
                          | Inr joined \<Rightarrow>
                              Some (Inr \<lparr>repository = repo_name, branches_joined = joined,
                                          using_lfs = lfs_used\<rparr>, w2)))))"

section \<open>fetch\_repo\_details.py: the metadata normalizer\<close>

definition and_then :: "py_exception + 'a \<Rightarrow> ('a \<Rightarrow> py_exception + 'b) \<Rightarrow> py_exception + 'b" where
  "and_then r f = (case r of Inl e \<Rightarrow> Inl e | Inr v \<Rightarrow> f v)"

text \<open>Chained subscripts \<open>obj[k1][k2]...\<close>, left to right.\<close>

fun get_path :: "json \<Rightarrow> string list \<Rightarrow> py_exception + json" where
  "get_path obj [] = Inr obj"
| "get_path obj (k # ks) = and_then (getitem obj k) (\<lambda>v. get_path v ks)"

text \<open>
  One output row. Values copied from the node stay JSON values. \<open>repo_size_mb\<close> is
  \<open>round(kb / 1024, 2)\<close>, a float with two decimals; the row holds it as the number of
  hundredths, rounded half to even as Python rounds. The division by 1024 is exact in
  floating point for disk sizes below \<open>2 ^ 53\<close>.
\<close>

record repo_row =
  repo_name :: json
  repo_size_mb :: int
  visibility :: json
  total_commits :: json
  total_branches :: json
  open_prs :: json
  merged_prs :: json
  closed_prs :: json
  open_issues :: json
  closed_issues :: json
  releases :: json
  tags :: json
  languages :: string
  last_pushed_at :: json
  last_updated_at :: json

definition round2_div_1024 :: "int \<Rightarrow> int" where
  "round2_div_1024 kb =
     (let q = (kb * 100) div 1024; r = (kb * 100) mod 1024
      in if r < 512 then q else if r > 512 then q + 1 else if even q then q else q + 1)"

text \<open>
  Line 111: the condition \<open>repo['languages']['nodes']\<close> is evaluated first; only a true
  value is iterated and joined.
\<close>

definition languages_of :: "json \<Rightarrow> py_exception + string" where
  "languages_of repo =
     and_then (get_path repo [''languages'', ''nodes'']) (\<lambda>nodes.
       if truthy nodes then
         and_then (py_iter nodes) (\<lambda>langs.
         and_then (getitem_each ''name'' langs) (\<lambda>names.
           py_join '', '' names))
       else Inr ''N/A'')"

text \<open>Line 114: \<open>(repo['diskUsage'] or 0) / 1024\<close> needs a number; \<open>True\<close> counts as 1.\<close>

definition repo_size_mb_of :: "json \<Rightarrow> py_exception + int" where
  "repo_size_mb_of repo =
     and_then (getitem repo ''diskUsage'') (\<lambda>v.
       case (if truthy v then v else JInt 0) of
         JInt kb \<Rightarrow> Inr (round2_div_1024 kb)
       | JBool b \<Rightarrow> Inr (round2_div_1024 (if b then 1 else 0))
       | _ \<Rightarrow> Inl TypeError)"

text \<open>Line 116: the commit count of the default branch, 0 without a default branch.\<close>

definition total_commits_of :: "json \<Rightarrow> py_exception + json" where
  "total_commits_of repo =
     and_then (getitem repo ''defaultBranchRef'') (\<lambda>ref.
       if truthy ref then
         get_path repo [''defaultBranchRef'', ''target'', ''history'', ''totalCount'']
       else Inr (JInt 0))"

text \<open>Lines 111 to 128: the dictionary literal is evaluated key by key, in order.\<close>

definition normalize_repo :: "json \<Rightarrow> py_exception + repo_row" where
  "normalize_repo repo =
     and_then (languages_of repo) (\<lambda>langs.
     and_then (getitem repo ''name'') (\<lambda>name.
     and_then (repo_size_mb_of repo) (\<lambda>size_mb.
     and_then (getitem repo ''visibility'') (\<lambda>vis.
     and_then (total_commits_of repo) (\<lambda>commits.
     and_then (get_path repo [''branches'', ''totalCount'']) (\<lambda>branch_count.
     and_then (get_path repo [''pullRequests'', ''totalCount'']) (\<lambda>open_pr.
     and_then (get_path repo [''mergedPRs'', ''totalCount'']) (\<lambda>merged_pr.
     and_then (get_path repo [''closedPRs'', ''totalCount'']) (\<lambda>closed_pr.
     and_then (get_path repo [''issues'', ''totalCount'']) (\<lambda>open_issue.
     and_then (get_path repo [''closedIssues'', ''totalCount'']) (\<lambda>closed_issue.
     and_then (get_path repo [''releases'', ''totalCount'']) (\<lambda>release_count.
     and_then (get_path repo [''tags'', ''totalCount'']) (\<lambda>tag_count.
     and_then (getitem repo ''pushedAt'') (\<lambda>pushed.
     and_then (getitem repo ''updatedAt'') (\<lambda>updated.
       Inr \<lparr>repo_name = name, repo_size_mb = size_mb, visibility = vis,
            total_commits = commits, total_branches = branch_count, open_prs = open_pr,
            merged_prs = merged_pr, closed_prs = closed_pr, open_issues = open_issue,
            closed_issues = closed_issue, releases = release_count, tags = tag_count,
            languages = langs, last_pushed_at = pushed,
            last_updated_at = updated\<rparr>)))))))))))))))"

text \<open>
  The \<open>for repo in repos\<close> loop appends to \<open>repo_data\<close> as it goes: when a node raises,
  the rows of the nodes before it are already in the list.
\<close>

fun normalize_each :: "json list \<Rightarrow> repo_row list \<Rightarrow> py_exception option \<times> repo_row list" where
  "normalize_each [] acc = (None, acc)"
| "normalize_each (repo # rest) acc =
     (case normalize_repo repo of
        Inl e \<Rightarrow> (Some e, acc)
      | Inr row \<Rightarrow> normalize_each rest (acc @ [row]))"

section \<open>fetch\_repo\_details.py: the cursor paginator\<close>

text \<open>
  The remote side of the query script: \<open>requests.post\<close> answers the n-th call, made with
  the given cursor, with a response or an exception; \<open>time.time()\<close> answers its n-th call
  with a clock reading in seconds, taken as a real number. The query text, the
  organisation and the headers are the same in every call.
\<close>

record remote =
  http_post :: "nat \<Rightarrow> json \<Rightarrow> get_outcome"
  time_time :: "nat \<Rightarrow> real"

text \<open>
  The state of \<open>fetch_data\<close>: its three local variables, and what it has done so far:
  the cursor of every call of \<open>requests.post\<close>, the number of calls of \<open>time.time()\<close>
  and the argument of every \<open>time.sleep\<close>.
\<close>

record fetch_state =
  has_next_page :: json
  cursor :: json
  repo_data :: "repo_row list"
  posted :: "json list"
  clock_reads :: nat
  sleeps :: "real list"

definition initial_state :: fetch_state where
  "initial_state = \<lparr>has_next_page = JBool True, cursor = JNull, repo_data = [],
                      posted = [], clock_reads = 0, sleeps = []\<rparr>"

text \<open>\<open>'errors' in json_data\<close>: a key of a dictionary, an element of a list, a substring
  of a string; the other values do not support \<open>in\<close>.\<close>

fun py_in_str :: "string \<Rightarrow> json \<Rightarrow> py_exception + bool" where
  "py_in_str k (JDict d) = Inr (map_of d k \<noteq> None)"
| "py_in_str k (JList xs) = Inr (JStr k \<in> set xs)"
| "py_in_str k (JStr s) = Inr (str_contains k s)"
| "py_in_str k _ = Inl TypeError"

text \<open>\<open>int(x)\<close> on a float truncates towards zero.\<close>

definition int_of_float :: "real \<Rightarrow> int" where
  "int_of_float x = (if 0 \<le> x then \<lfloor>x\<rfloor> else \<lceil>x\<rceil>)"

text \<open>
  The wait is computed in floating point from an integer and a clock reading. An integer
  converts to a float when it rounds to a finite one; otherwise the subtraction raises
  OverflowError.
\<close>

definition float_of_int_ok :: "int \<Rightarrow> bool" where
  "float_of_int_ok n = (\<bar>n\<bar> < 2 ^ 1024 - 2 ^ 970)"

text \<open>
  \<open>time.sleep(secs)\<close> first converts its argument to a signed 64-bit count of
  nanoseconds and raises OverflowError when it does not fit (a wait beyond about
  \<open>9.2e9\<close> seconds either way), then raises ValueError for a negative argument.
  Durations are real numbers here; the rounding of the float is not modelled.
\<close>

definition time_sleep :: "real \<Rightarrow> py_exception + unit" where
  "time_sleep secs =
     (if secs * 10 ^ 9 < - (2 ^ 63) \<or> 2 ^ 63 \<le> secs * 10 ^ 9 then Inl OverflowError
      else if secs < 0 then Inl ValueError
      else Inr ())"

text \<open>
  Lines 137 to 143. The default \<open>time.time() + 60\<close> of the second \<open>headers.get\<close> is
  evaluated whether or not the header is present.
\<close>

definition rate_limit_wait ::
  "remote \<Rightarrow> response \<Rightarrow> fetch_state \<Rightarrow> (py_exception + unit) \<times> fetch_state" where
  "rate_limit_wait env response s =
     (case (case x_ratelimit_remaining response of
              Absent \<Rightarrow> Inr 1 | IntText n \<Rightarrow> Inr n | NotInt \<Rightarrow> Inl ValueError) of
        Inl e \<Rightarrow> (Inl e, s)
      | Inr remaining \<Rightarrow>
          if remaining < (10 :: int) then
            (let t1 = time_time env (clock_reads s);
                 s1 = s\<lparr>clock_reads := clock_reads s + 1\<rparr>
             in case (case x_ratelimit_reset response of
                        Absent \<Rightarrow> Inr (int_of_float (t1 + 60))
                      | IntText n \<Rightarrow> Inr n
                      | NotInt \<Rightarrow> Inl ValueError) of
                  Inl e \<Rightarrow> (Inl e, s1)
                | Inr reset_time \<Rightarrow>
                    (let t2 = time_time env (clock_reads s1);
                         s2 = s1\<lparr>clock_reads := clock_reads s1 + 1\<rparr>
                     in if \<not> float_of_int_ok reset_time then (Inl OverflowError, s2)
                        else (let wait_time = real_of_int reset_time - t2 + 5
                              in case time_sleep wait_time of
                                   Inl e \<Rightarrow> (Inl e, s2)
                                 | Inr u \<Rightarrow> (Inr (), s2\<lparr>sleeps := sleeps s2 @ [wait_time]\<rparr>))))
          else (Inr (), s))"

text \<open>How an iteration leaves the \<open>while\<close> loop: by \<open>break\<close>, or by reaching its end.\<close>

datatype control = Break | Next

text \<open>
  The body of the \<open>try\<close> block, lines 97 to 148, in three parts. Lines 130 to 143: the
  two loop variables are assigned one after the other, then the rate limit is observed.
\<close>

definition finish_page ::
  "remote \<Rightarrow> response \<Rightarrow> json \<Rightarrow> fetch_state \<Rightarrow> (py_exception + control) \<times> fetch_state" where
  "finish_page env response page_info s1 =
     (case getitem page_info ''hasNextPage'' of
        Inl e \<Rightarrow> (Inl e, s1)
      | Inr flag \<Rightarrow>
          (case getitem page_info ''endCursor'' of
             Inl e \<Rightarrow> (Inl e, s1\<lparr>has_next_page := flag\<rparr>)
           | Inr c \<Rightarrow>
               (case rate_limit_wait env response (s1\<lparr>has_next_page := flag, cursor := c\<rparr>) of
                  (Inl e, s4) \<Rightarrow> (Inl e, s4)
                | (Inr u, s4) \<Rightarrow> (Inr Next, s4))))"

text \<open>Lines 107 to 128: the nodes and the page information are read, then each node is
  normalized and appended.\<close>

definition process_page ::
  "remote \<Rightarrow> response \<Rightarrow> json \<Rightarrow> fetch_state \<Rightarrow> (py_exception + control) \<times> fetch_state" where
  "process_page env response json_data s0 =
     (case get_path json_data [''data'', ''organization'', ''repositories'', ''nodes''] of
        Inl e \<Rightarrow> (Inl e, s0)
      | Inr repos \<Rightarrow>
          (case get_path json_data [''data'', ''organization'', ''repositories'', ''pageInfo''] of
             Inl e \<Rightarrow> (Inl e, s0)
           | Inr page_info \<Rightarrow>
               (case py_iter repos of
                  Inl e \<Rightarrow> (Inl e, s0)
                | Inr nodes \<Rightarrow>
                    (case normalize_each nodes (repo_data s0) of
                       (Some e, acc) \<Rightarrow> (Inl e, s0\<lparr>repo_data := acc\<rparr>)
                     | (None, acc) \<Rightarrow>
                         finish_page env response page_info (s0\<lparr>repo_data := acc\<rparr>)))))"

text \<open>Lines 97 to 105 and 145 to 148: the call, the status and the \<open>errors\<close> key.\<close>

definition try_body :: "remote \<Rightarrow> fetch_state \<Rightarrow> (py_exception + control) \<times> fetch_state" where
  "try_body env s =
     (let s0 = s\<lparr>posted := posted s @ [cursor s]\<rparr> in
      case http_post env (length (posted s)) (cursor s) of
        Raises e \<Rightarrow> (Inl e, s0)
      | Returns response \<Rightarrow>
          if status_code response = 200 then
            (case json_of response of
               Inl e \<Rightarrow> (Inl e, s0)
             | Inr json_data \<Rightarrow>
                 (case py_in_str ''errors'' json_data of
                    Inl e \<Rightarrow> (Inl e, s0)
                  | Inr True \<Rightarrow> (Inr Break, s0)
                  | Inr False \<Rightarrow> process_page env response json_data s0))
          else (Inr Break, s0))"

text \<open>\<open>except Exception\<close>: every exception of the body ends the loop.\<close>

definition loop_body :: "remote \<Rightarrow> fetch_state \<Rightarrow> control \<times> fetch_state" where
  "loop_body env s =
     (case try_body env s of
        (Inl e, s') \<Rightarrow> (Break, s')
      | (Inr c, s') \<Rightarrow> (c, s'))"

text \<open>\<open>while has_next_page\<close>. The loop is not bounded: \<open>None\<close> is a run that never ends.\<close>

partial_function (option) fetch_loop :: "remote \<Rightarrow> fetch_state \<Rightarrow> fetch_state option" where
  "fetch_loop env s =
     (if truthy (has_next_page s) then
        (case loop_body env s of
           (Break, s') \<Rightarrow> Some s'
         | (Next, s') \<Rightarrow> fetch_loop env s')
      else Some s)"

definition fetch_data :: "remote \<Rightarrow> repo_row list option" where
  "fetch_data env = map_option repo_data (fetch_loop env initial_state)"

text \<open>
  \<open>write_csv\<close> creates the file named after the organisation, with the keys of the
  first row as header and one line per row. The main block calls it only for a
  non-empty list; the result of the script is the file written, if any.
\<close>

record csv_file =
  csv_name :: string
  csv_header :: "string list"
  csv_rows :: "repo_row list"

definition row_keys :: "string list" where
  "row_keys = [''repo_name'', ''repo_size_mb'', ''visibility'', ''total_commits'',
     ''total_branches'', ''open_prs'', ''merged_prs'', ''closed_prs'', ''open_issues'',
     ''closed_issues'', ''releases'', ''tags'', ''languages'', ''last_pushed_at'',
     ''last_updated_at'']"

definition write_csv :: "string \<Rightarrow> repo_row list \<Rightarrow> csv_file" where
  "write_csv org data =
     \<lparr>csv_name = org @ ''_repository_details.csv'',
      csv_header = (if data \<noteq> [] then row_keys else []),
      csv_rows = data\<rparr>"

definition main_script :: "string \<Rightarrow> remote \<Rightarrow> csv_file option option" where
  "main_script org env =
     (case fetch_data env of
        None \<Rightarrow> None
      | Some repo_details \<Rightarrow>
          Some (if repo_details \<noteq> [] then Some (write_csv org repo_details) else None))"

section \<open>Auxiliary definitions and concrete inputs\<close>

definition world0 :: world where
  "world0 = \<lparr>requests = [], calls = [], probes = []\<rparr>"

definition cfg0 :: config where
  "cfg0 = \<lparr>GHES_URL = ''https://ghe.example/api/v3'', ORG_NAME = ''acme''\<rparr>"

text \<open>A network where every request fails: the second with a connection error, the others
  with a timeout.\<close>

definition net_down :: net where
  "net_down i u = Raises (if i = 1 then ConnectionError else Timeout)"

text \<open>
  A stretch of a pagination: from world \<open>w\<close> and page number \<open>page\<close>, the successive calls
  of \<open>safe_request\<close> on \<open>urlf page\<close>, \<open>urlf (page + 1)\<close>, ... return successful responses
  whose bodies are the given non-empty lists. The result is the world after the last of
  them, \<open>None\<close> if the network does not answer so.
\<close>

fun pages_from :: "net \<Rightarrow> (nat \<Rightarrow> url) \<Rightarrow> nat \<Rightarrow> json list list \<Rightarrow> world \<Rightarrow> world option" where
  "pages_from net urlf page [] w = Some w"
| "pages_from net urlf page (items # later) w =
     (case safe_request net (urlf page) w of
        (Inr (Some r), w') \<Rightarrow>
          if response_ok r \<and> json_of r = Inr (JList items) \<and> items \<noteq> []
          then pages_from net urlf (Suc page) later w'
          else None
      | _ \<Rightarrow> None)"

text \<open>A successful listing response, a repository object, and two networks: one serves a
  page with one repository and then empty pages, the other serves that page and then
  times out.\<close>

definition page_response :: "json list \<Rightarrow> response" where
  "page_response items = \<lparr>status_code = 200, json_body = Some (JList items),
      x_ratelimit_remaining = Absent, x_ratelimit_reset = Absent\<rparr>"

definition repo_alpha :: json where
  "repo_alpha = JDict [(''name'', JStr ''alpha'')]"

definition net_one_page :: net where
  "net_one_page i u = Returns (page_response (if i = 0 then [repo_alpha] else []))"

definition net_page_then_down :: net where
  "net_page_then_down i u = (if i = 0 then Returns (page_response [repo_alpha]) else Raises Timeout)"

text \<open>A network that answers every request with an HTTP error status, one that answers
  every request with 404, and a codec that takes the content as already decoded.\<close>

definition net_forbidden :: net where
  "net_forbidden i u = Returns \<lparr>status_code = (if i = 1 then 400 else 403), json_body = None,
      x_ratelimit_remaining = Absent, x_ratelimit_reset = Absent\<rparr>"

definition codec_plain :: codec where
  "codec_plain = \<lparr>b64decode = Some, utf8_decode = Some\<rparr>"

definition net_not_found :: net where
  "net_not_found i u = Returns \<lparr>status_code = 404,
      json_body = Some (JDict [(''message'', JStr ''Not Found'')]),
      x_ratelimit_remaining = Absent, x_ratelimit_reset = Absent\<rparr>"

text \<open>A repository with the branches main and dev, where only dev has an attributes file,
  and that file holds the marker.\<close>

definition net_lfs :: net where
  "net_lfs i u =
     (case u of
        BranchesUrl base org rname page \<Rightarrow>
          Returns (page_response
            (if page = 1 then [JDict [(''name'', JStr ''main'')], JDict [(''name'', JStr ''dev'')]]
             else []))
      | GitattributesUrl base org rname bname \<Rightarrow>
          if bname = JStr ''dev'' then
            Returns \<lparr>status_code = 200,
              json_body = Some (JDict [(''content'', JStr ''*.bin filter=lfs diff=lfs'')]),
              x_ratelimit_remaining = Absent, x_ratelimit_reset = Absent\<rparr>
          else
            Returns \<lparr>status_code = 404, json_body = Some (JDict [(''message'', JStr ''Not Found'')]),
              x_ratelimit_remaining = Absent, x_ratelimit_reset = Absent\<rparr>
      | OrgReposUrl base org page \<Rightarrow> Raises Timeout)"

text \<open>Repository nodes as the query returns them, built from the parts that vary: the
  name, the disk usage, the default branch, the branch count object and the languages.\<close>

definition count_of :: "int \<Rightarrow> json" where
  "count_of n = JDict [(''totalCount'', JInt n)]"

definition repo_node :: "string \<Rightarrow> json \<Rightarrow> json \<Rightarrow> json \<Rightarrow> string list \<Rightarrow> json" where
  "repo_node name disk_usage default_ref branch_count langs =
     JDict [(''name'', JStr name), (''diskUsage'', disk_usage), (''visibility'', JStr ''PRIVATE''),
            (''defaultBranchRef'', default_ref), (''branches'', branch_count),
            (''pullRequests'', count_of 1), (''mergedPRs'', count_of 2), (''closedPRs'', count_of 3),
            (''issues'', count_of 4), (''closedIssues'', count_of 5), (''releases'', count_of 6),
            (''tags'', count_of 7),
            (''languages'', JDict [(''nodes'', JList (map (\<lambda>l. JDict [(''name'', JStr l)]) langs))]),
            (''pushedAt'', JStr ''2024-01-01T00:00:00Z''),
            (''updatedAt'', JStr ''2024-01-02T00:00:00Z'')]"

definition commits_ref :: "int \<Rightarrow> json" where
  "commits_ref n = JDict [(''target'', JDict [(''history'', count_of n)])]"

text \<open>Bodies and responses of the query endpoint, a node with its row, and four remotes.\<close>

definition page_json :: "json list \<Rightarrow> json \<Rightarrow> json \<Rightarrow> json" where
  "page_json nodes flag c =
     JDict [(''data'', JDict [(''organization'', JDict [(''repositories'',
       JDict [(''nodes'', JList nodes),
              (''pageInfo'', JDict [(''hasNextPage'', flag), (''endCursor'', c)])])])])]"

definition errors_json :: json where
  "errors_json = JDict [(''errors'', JList [JDict [(''message'', JStr ''Something went wrong'')]])]"

definition gql_response :: "json \<Rightarrow> header_value \<Rightarrow> header_value \<Rightarrow> response" where
  "gql_response body remaining reset =
     \<lparr>status_code = 200, json_body = Some body,
      x_ratelimit_remaining = remaining, x_ratelimit_reset = reset\<rparr>"

definition node_alpha :: json where
  "node_alpha = repo_node ''alpha'' (JInt 2048) (commits_ref 10) (count_of 3) [''Python'', ''Shell'']"

definition row_alpha :: repo_row where
  "row_alpha = \<lparr>repo_name = JStr ''alpha'', repo_size_mb = 200, visibility = JStr ''PRIVATE'',
       total_commits = JInt 10, total_branches = JInt 3, open_prs = JInt 1,
       merged_prs = JInt 2, closed_prs = JInt 3, open_issues = JInt 4,
       closed_issues = JInt 5, releases = JInt 6, tags = JInt 7,
       languages = ''Python, Shell'', last_pushed_at = JStr ''2024-01-01T00:00:00Z'',
       last_updated_at = JStr ''2024-01-02T00:00:00Z''\<rparr>"

text \<open>Two pages: the first call gets one node and the cursor c1, every later call an empty
  last page. The quota is far from the low-water mark.\<close>

definition env_two_pages :: remote where
  "env_two_pages =
     \<lparr>http_post = (\<lambda>i c. Returns (gql_response
          (if i = 0 then page_json [node_alpha] (JBool True) (JStr ''c1'')
           else page_json [] (JBool False) JNull)
          (IntText 4999) (IntText 1700003600))),
      time_time = (\<lambda>i. 1700000000)\<rparr>"

text \<open>Every call gets a page with one node and \<open>hasNextPage\<close> true; five calls are left in
  the quota and the reset time sent by the server lies in the past of the local clock.\<close>

definition env_past_reset :: remote where
  "env_past_reset =
     \<lparr>http_post = (\<lambda>i c. Returns (gql_response
          (page_json [node_alpha] (JBool True) (JStr ''c1'')) (IntText 5) (IntText 1699999000))),
      time_time = (\<lambda>i. 1700000000)\<rparr>"

text \<open>The first call gets a page with one node, the second a query-error payload.\<close>

definition env_errors_second :: remote where
  "env_errors_second =
     \<lparr>http_post = (\<lambda>i c. Returns (gql_response
          (if i = 0 then page_json [node_alpha] (JBool True) (JStr ''c1'') else errors_json)
          (IntText 4999) (IntText 1700003600))),
      time_time = (\<lambda>i. 1700000000)\<rparr>"

text \<open>Every call gets a query-error payload.\<close>

definition env_errors_first :: remote where
  "env_errors_first =
     \<lparr>http_post = (\<lambda>i c. Returns (gql_response errors_json (IntText 4999) (IntText 1700003600))),
      time_time = (\<lambda>i. 1700000000)\<rparr>"

text \<open>The keys of the eight sub-objects whose \<open>totalCount\<close> lines 117 to 124 read.\<close>

definition count_keys :: "string list" where
  "count_keys = [''branches'', ''pullRequests'', ''mergedPRs'', ''closedPRs'', ''issues'',
                 ''closedIssues'', ''releases'', ''tags'']"

text \<open>Every call gets a page with one node and \<open>hasNextPage\<close> true; five calls are left in
  the quota and the reset time is given in milliseconds, far beyond the local clock.\<close>

definition env_far_reset :: remote where
  "env_far_reset =
     \<lparr>http_post = (\<lambda>i c. Returns (gql_response
          (page_json [node_alpha] (JBool True) (JStr ''c1'')) (IntText 5) (IntText 1700000060000))),
      time_time = (\<lambda>i. 1700000000)\<rparr>"

section \<open>Facts about the model\<close>

lemma attempt_world:
  "snd (attempt net u w) = w\<lparr>requests := requests w @ [u]\<rparr>"
  by (simp add: attempt_def session_get_def split: get_outcome.splits sum.splits)

lemma attempts_calls: "calls (snd (attempts net u n w)) = calls w"
proof (induction n arbitrary: w)
  case 0
  show ?case by simp
next
  case (Suc n)
  obtain res w' where a: "attempt net u w = (res, w')" by (cases "attempt net u w")
  with attempt_world [of net u w] have w': "w' = w\<lparr>requests := requests w @ [u]\<rparr>" by simp
  show ?case using a Suc.IH [of w'] by (simp add: w' split: sum.splits)
qed

lemma attempts_probes: "probes (snd (attempts net u n w)) = probes w"
proof (induction n arbitrary: w)
  case 0
  show ?case by simp
next
  case (Suc n)
  obtain res w' where a: "attempt net u w = (res, w')" by (cases "attempt net u w")
  with attempt_world [of net u w] have w': "w' = w\<lparr>requests := requests w @ [u]\<rparr>" by simp
  show ?case using a Suc.IH [of w'] by (simp add: w' split: sum.splits)
qed

lemma attempts_requests:
  "\<exists>k\<le>n. requests (snd (attempts net u n w)) = requests w @ replicate k u"
proof (induction n arbitrary: w)
  case 0
  show ?case by simp
next
  case (Suc n)
  obtain res w' where a: "attempt net u w = (res, w')" by (cases "attempt net u w")
  with attempt_world [of net u w] have w': "w' = w\<lparr>requests := requests w @ [u]\<rparr>" by simp
  show ?case
  proof (cases "\<exists>e. res = Inl e \<and> caught_by_safe_request e")
    case True
    then obtain e where e: "res = Inl e" "caught_by_safe_request e" by blast
    from Suc.IH [of w'] obtain k where k: "k \<le> n"
      "requests (snd (attempts net u n w')) = requests w' @ replicate k u" by blast
    have "requests (snd (attempts net u (Suc n) w)) = requests w @ replicate (Suc k) u"
      using a e k by (simp add: w' replicate_app_Cons_same)
    with k(1) show ?thesis by (metis Suc_le_mono)
  next
    case False
    then have "snd (attempts net u (Suc n) w) = w'"
      using a by (auto split: sum.splits)
    then have "requests (snd (attempts net u (Suc n) w)) = requests w @ replicate (Suc 0) u"
      by (simp add: w')
    then show ?thesis by (metis Suc_le_mono le0)
  qed
qed

lemma safe_request_calls: "calls (snd (safe_request net u w)) = calls w @ [u]"
  by (simp add: safe_request_def attempts_calls)

lemma safe_request_probes: "probes (snd (safe_request net u w)) = probes w"
  by (simp add: safe_request_def attempts_probes)

lemma attempt_raises:
  "net (length (requests w)) u = Raises e \<Longrightarrow>
   attempt net u w = (Inl e, w\<lparr>requests := requests w @ [u]\<rparr>)"
  by (simp add: attempt_def session_get_def)

lemma attempt_404:
  "net (length (requests w)) u = Returns r \<Longrightarrow> status_code r = 404 \<Longrightarrow>
   attempt net u w = (Inr r, w\<lparr>requests := requests w @ [u]\<rparr>)"
  by (simp add: attempt_def session_get_def)

lemma attempt_http_error:
  "net (length (requests w)) u = Returns r \<Longrightarrow> status_code r \<noteq> 404 \<Longrightarrow>
   400 \<le> status_code r \<Longrightarrow> status_code r < 600 \<Longrightarrow>
   attempt net u w = (Inl HTTPError, w\<lparr>requests := requests w @ [u]\<rparr>)"
  by (simp add: attempt_def session_get_def raise_for_status_def)

lemma attempt_success:
  "net (length (requests w)) u = Returns r \<Longrightarrow> \<not> (400 \<le> status_code r \<and> status_code r < 600) \<Longrightarrow>
   attempt net u w = (Inr r, w\<lparr>requests := requests w @ [u]\<rparr>)"
  by (auto simp add: attempt_def session_get_def raise_for_status_def)

text \<open>Three attempts that each end in a caught exception exhaust the loop.\<close>

lemma attempts_exhausted:
  assumes "\<forall>i<n. \<exists>e. fst (attempt net u (w\<lparr>requests := requests w @ replicate i u\<rparr>)) = Inl e
              \<and> caught_by_safe_request e"
  shows "attempts net u n w = (Inr None, w\<lparr>requests := requests w @ replicate n u\<rparr>)"
  using assms
proof (induction n arbitrary: w)
  case 0
  show ?case by simp
next
  case (Suc n)
  from Suc.prems [rule_format, of 0] obtain e where
    e: "fst (attempt net u w) = Inl e" "caught_by_safe_request e" by auto
  let ?w' = "w\<lparr>requests := requests w @ [u]\<rparr>"
  have a: "attempt net u w = (Inl e, ?w')"
    using e(1) attempt_world [of net u w] by (metis prod.collapse)
  have "\<forall>i<n. \<exists>e. fst (attempt net u (?w'\<lparr>requests := requests ?w' @ replicate i u\<rparr>)) = Inl e
              \<and> caught_by_safe_request e"
  proof (intro allI impI)
    fix i assume "i < n"
    then have "Suc i < Suc n" by simp
    from Suc.prems [rule_format, OF this] show
      "\<exists>e. fst (attempt net u (?w'\<lparr>requests := requests ?w' @ replicate i u\<rparr>)) = Inl e
              \<and> caught_by_safe_request e"
      by (simp add: replicate_app_Cons_same)
  qed
  from Suc.IH [OF this] show ?case
    using a e(2) by (simp add: replicate_app_Cons_same)
qed


lemma three_failures_exhaust:
  assumes "\<forall>i<3. \<exists>e. net (length (requests w) + i) u = Raises e \<and> caught_by_safe_request e"
  shows "safe_request net u w =
           (Inr None, w\<lparr>requests := requests w @ [u, u, u], calls := calls w @ [u]\<rparr>)"
proof -
  let ?w = "w\<lparr>calls := calls w @ [u]\<rparr>"
  have "\<forall>i<3. \<exists>e. fst (attempt net u (?w\<lparr>requests := requests ?w @ replicate i u\<rparr>)) = Inl e
              \<and> caught_by_safe_request e"
  proof (intro allI impI)
    fix i :: nat assume "i < 3"
    with assms obtain e where
      e: "net (length (requests w) + i) u = Raises e" "caught_by_safe_request e" by blast
    have "attempt net u (?w\<lparr>requests := requests ?w @ replicate i u\<rparr>)
            = (Inl e, ?w\<lparr>requests := requests ?w @ replicate i u @ [u]\<rparr>)"
      using attempt_raises [of net "?w\<lparr>requests := requests ?w @ replicate i u\<rparr>" u e] e(1)
      by simp
    with e(2) show "\<exists>e. fst (attempt net u (?w\<lparr>requests := requests ?w @ replicate i u\<rparr>)) = Inl e
              \<and> caught_by_safe_request e" by simp
  qed
  from attempts_exhausted [OF this] show ?thesis
    by (simp add: safe_request_def numeral_3_eq_3)
qed

lemma get_repositories_loop_stop:
  "safe_request net (OrgReposUrl (GHES_URL cfg) org page) w = (Inr response, w') \<Longrightarrow>
   \<not> response_truthy response \<Longrightarrow>
   get_repositories_loop cfg net org repos page w = Some (Inr repos, w')"
  by (subst get_repositories_loop.simps) simp

lemma get_branches_loop_stop:
  "safe_request net (BranchesUrl (GHES_URL cfg) (ORG_NAME cfg) rname page) w = (Inr response, w') \<Longrightarrow>
   \<not> response_truthy response \<Longrightarrow>
   get_branches_loop cfg net rname branches page w = Some (Inr branches, w')"
  by (subst get_branches_loop.simps) simp

lemma check_lfs_usage_falsy:
  "safe_request net (GitattributesUrl (GHES_URL cfg) (ORG_NAME cfg) rname bname) w
     = (Inr response, w') \<Longrightarrow>
   \<not> response_truthy response \<Longrightarrow>
   check_lfs_usage cfg cd net rname bname w
     = (Inr False, w'\<lparr>probes := probes w' @ [(rname, bname, False)]\<rparr>)"
  by (simp add: check_lfs_usage_def lfs_verdict_def)

lemma get_repositories_loop_empty:
  "safe_request net (OrgReposUrl (GHES_URL cfg) org page) w = (Inr (Some r), w') \<Longrightarrow>
   response_ok r \<Longrightarrow> json_of r = Inr data \<Longrightarrow> \<not> truthy data \<Longrightarrow>
   get_repositories_loop cfg net org repos page w = Some (Inr repos, w')"
  by (subst get_repositories_loop.simps) simp

lemma get_repositories_loop_next:
  "safe_request net (OrgReposUrl (GHES_URL cfg) org page) w = (Inr (Some r), w') \<Longrightarrow>
   response_ok r \<Longrightarrow> json_of r = Inr data \<Longrightarrow> truthy data \<Longrightarrow> py_iter data = Inr items \<Longrightarrow>
   get_repositories_loop cfg net org repos page w =
     get_repositories_loop cfg net org (repos @ items) (Suc page) w'"
  by (subst get_repositories_loop.simps) simp

lemma get_branches_loop_empty:
  "safe_request net (BranchesUrl (GHES_URL cfg) (ORG_NAME cfg) rname page) w = (Inr (Some r), w') \<Longrightarrow>
   response_ok r \<Longrightarrow> json_of r = Inr data \<Longrightarrow> \<not> truthy data \<Longrightarrow>
   get_branches_loop cfg net rname branches page w = Some (Inr branches, w')"
  by (subst get_branches_loop.simps) simp

lemma get_branches_loop_next:
  "safe_request net (BranchesUrl (GHES_URL cfg) (ORG_NAME cfg) rname page) w = (Inr (Some r), w') \<Longrightarrow>
   response_ok r \<Longrightarrow> json_of r = Inr data \<Longrightarrow> truthy data \<Longrightarrow> py_iter data = Inr items \<Longrightarrow>
   getitem_each ''name'' items = Inr names \<Longrightarrow>
   get_branches_loop cfg net rname branches page w =
     get_branches_loop cfg net rname (branches @ names) (Suc page) w'"
  by (subst get_branches_loop.simps) simp

text \<open>The calls of a run that returns are for consecutive pages, starting at the
  page of the loop state.\<close>

lemma upt_step: "f page # map f [Suc page..<Suc page + Suc k] = map f [page..<page + Suc (Suc k)]"
proof -
  have "[page..<page + Suc (Suc k)] = page # [Suc page..<page + Suc (Suc k)]"
    by (rule upt_conv_Cons) simp
  then show ?thesis by simp
qed

lemma get_repositories_loop_calls:
  assumes "get_repositories_loop cfg net org repos page w = Some y"
  shows "\<exists>k. calls (snd y) = calls w @ map (OrgReposUrl (GHES_URL cfg) org) [page..<page + Suc k]"
proof (rule get_repositories_loop.raw_induct [where P =
    "\<lambda>cfg net org repos page w y.
       \<exists>k. calls (snd y) = calls w @ map (OrgReposUrl (GHES_URL cfg) org) [page..<page + Suc k]",
    OF _ assms])
  fix loop :: "config \<Rightarrow> net \<Rightarrow> string \<Rightarrow> json list \<Rightarrow> nat \<Rightarrow> world
                 \<Rightarrow> ((py_exception + json list) \<times> world) option"
    and cfg :: config and net :: net and org repos page and w :: world and y
  assume IH: "\<And>cfg net org repos page (w :: world) y. loop cfg net org repos page w = Some y \<Longrightarrow>
       \<exists>k. calls (snd y) = calls w @ map (OrgReposUrl (GHES_URL cfg) org) [page..<page + Suc k]"
  assume body: "(case safe_request net (OrgReposUrl (GHES_URL cfg) org page) w of
        (Inl e, w') \<Rightarrow> Some (Inl e, w')
      | (Inr response, w') \<Rightarrow>
          if \<not> response_truthy response then Some (Inr repos, w')
          else (case json_of (the response) of
                  Inl e \<Rightarrow> Some (Inl e, w')
                | Inr data \<Rightarrow>
                    if \<not> truthy data then Some (Inr repos, w')
                    else (case py_iter data of
                            Inl e \<Rightarrow> Some (Inl e, w')
                          | Inr items \<Rightarrow> loop cfg net org (repos @ items) (page + 1) w'))) = Some y"
  let ?u = "OrgReposUrl (GHES_URL cfg) org page"
  obtain res w' where sr: "safe_request net ?u w = (res, w')"
    by (cases "safe_request net ?u w")
  have cw: "calls w' = calls w @ [?u]"
    using safe_request_calls [of net ?u w] sr by simp
  have stop: "\<exists>k. calls w' = calls w @ map (OrgReposUrl (GHES_URL cfg) org) [page..<page + Suc k]"
    using cw by (intro exI [of _ 0]) simp
  have step: "\<exists>k. calls (snd y) = calls w @ map (OrgReposUrl (GHES_URL cfg) org) [page..<page + Suc k]"
    if "loop cfg net org repos' (Suc page) w' = Some y" for repos'
  proof -
    from IH [OF that] obtain k where
      "calls (snd y) = calls w' @ map (OrgReposUrl (GHES_URL cfg) org) [Suc page..<Suc page + Suc k]"
      by blast
    then have "calls (snd y) = calls w @ map (OrgReposUrl (GHES_URL cfg) org) [page..<page + Suc (Suc k)]"
      using cw upt_step [of "OrgReposUrl (GHES_URL cfg) org" page k] by simp
    then show ?thesis by blast
  qed
  from body sr show "\<exists>k. calls (snd y) = calls w @ map (OrgReposUrl (GHES_URL cfg) org) [page..<page + Suc k]"
    using stop step
    by (auto split: sum.splits if_splits)
qed

lemma get_branches_loop_calls:
  assumes "get_branches_loop cfg net rname branches page w = Some y"
  shows "\<exists>k. calls (snd y) =
           calls w @ map (BranchesUrl (GHES_URL cfg) (ORG_NAME cfg) rname) [page..<page + Suc k]"
proof (rule get_branches_loop.raw_induct [where P =
    "\<lambda>cfg net rname branches page w y.
       \<exists>k. calls (snd y) =
           calls w @ map (BranchesUrl (GHES_URL cfg) (ORG_NAME cfg) rname) [page..<page + Suc k]",
    OF _ assms])
  fix loop :: "config \<Rightarrow> net \<Rightarrow> json \<Rightarrow> json list \<Rightarrow> nat \<Rightarrow> world
                 \<Rightarrow> ((py_exception + json list) \<times> world) option"
    and cfg :: config and net :: net and rname branches page and w :: world and y
  assume IH: "\<And>cfg net rname branches page (w :: world) y.
       loop cfg net rname branches page w = Some y \<Longrightarrow>
       \<exists>k. calls (snd y) =
           calls w @ map (BranchesUrl (GHES_URL cfg) (ORG_NAME cfg) rname) [page..<page + Suc k]"
  assume body: "(case safe_request net (BranchesUrl (GHES_URL cfg) (ORG_NAME cfg) rname page) w of
        (Inl e, w') \<Rightarrow> Some (Inl e, w')
      | (Inr response, w') \<Rightarrow>
          if \<not> response_truthy response then Some (Inr branches, w')
          else (case json_of (the response) of
                  Inl e \<Rightarrow> Some (Inl e, w')
                | Inr data \<Rightarrow>
                    if \<not> truthy data then Some (Inr branches, w')
                    else (case py_iter data of
                            Inl e \<Rightarrow> Some (Inl e, w')
                          | Inr items \<Rightarrow>
                              (case getitem_each ''name'' items of
                                 Inl e \<Rightarrow> Some (Inl e, w')
                               | Inr names \<Rightarrow>
                                   loop cfg net rname (branches @ names) (page + 1) w')))) = Some y"
  let ?f = "BranchesUrl (GHES_URL cfg) (ORG_NAME cfg) rname"
  obtain res w' where sr: "safe_request net (?f page) w = (res, w')"
    by (cases "safe_request net (?f page) w")
  have cw: "calls w' = calls w @ [?f page]"
    using safe_request_calls [of net "?f page" w] sr by simp
  have stop: "\<exists>k. calls w' = calls w @ map ?f [page..<page + Suc k]"
    using cw by (intro exI [of _ 0]) simp
  have step: "\<exists>k. calls (snd y) = calls w @ map ?f [page..<page + Suc k]"
    if "loop cfg net rname branches' (Suc page) w' = Some y" for branches'
  proof -
    from IH [OF that] obtain k where
      "calls (snd y) = calls w' @ map ?f [Suc page..<Suc page + Suc k]"
      by blast
    then have "calls (snd y) = calls w @ map ?f [page..<page + Suc (Suc k)]"
      using cw upt_step [of ?f page k] by simp
    then show ?thesis by blast
  qed
  from body sr show "\<exists>k. calls (snd y) = calls w @ map ?f [page..<page + Suc k]"
    using stop step
    by (auto split: sum.splits if_splits)
qed

lemma upt_two: "\<exists>rest. map f [page..<page + Suc (Suc k)] = f page # f (Suc page) # rest"
proof -
  have "[page..<page + Suc (Suc k)] = page # [Suc page..<page + Suc (Suc k)]"
    by (rule upt_conv_Cons) simp
  moreover have "[Suc page..<page + Suc (Suc k)] = Suc page # [Suc (Suc page)..<page + Suc (Suc k)]"
    by (rule upt_conv_Cons) simp
  ultimately show ?thesis by simp
qed

text \<open>A stretch of non-empty pages carries the repository loop forward over all of them.\<close>

lemma get_repositories_loop_pages:
  "pages_from net (OrgReposUrl (GHES_URL cfg) org) page ps w = Some wk \<Longrightarrow>
   get_repositories_loop cfg net org repos page w =
     get_repositories_loop cfg net org (repos @ concat ps) (page + length ps) wk"
proof (induction ps arbitrary: repos page w)
  case Nil
  then show ?case by simp
next
  case (Cons items ps)
  let ?u = "OrgReposUrl (GHES_URL cfg) org page"
  from Cons.prems obtain r w' where
    sr: "safe_request net ?u w = (Inr (Some r), w')" and
    ok: "response_ok r" "json_of r = Inr (JList items)" "items \<noteq> []" and
    rest: "pages_from net (OrgReposUrl (GHES_URL cfg) org) (Suc page) ps w' = Some wk"
    by (auto split: prod.splits sum.splits option.splits if_splits)
  have "get_repositories_loop cfg net org repos page w =
          get_repositories_loop cfg net org (repos @ items) (Suc page) w'"
    using sr ok by (intro get_repositories_loop_next [where r = r and data = "JList items"]) simp_all
  also have "\<dots> = get_repositories_loop cfg net org ((repos @ items) @ concat ps)
                     (Suc page + length ps) wk"
    by (rule Cons.IH [OF rest])
  finally show ?case by simp
qed

lemma get_branches_loop_pages:
  "pages_from net (BranchesUrl (GHES_URL cfg) (ORG_NAME cfg) rname) page ps w = Some wk \<Longrightarrow>
   list_all2 (\<lambda>items names. getitem_each ''name'' items = Inr names) ps nss \<Longrightarrow>
   get_branches_loop cfg net rname branches page w =
     get_branches_loop cfg net rname (branches @ concat nss) (page + length ps) wk"
proof (induction ps arbitrary: branches page w nss)
  case Nil
  then show ?case by simp
next
  case (Cons items ps)
  let ?u = "BranchesUrl (GHES_URL cfg) (ORG_NAME cfg) rname page"
  from Cons.prems(1) obtain r w' where
    sr: "safe_request net ?u w = (Inr (Some r), w')" and
    ok: "response_ok r" "json_of r = Inr (JList items)" "items \<noteq> []" and
    rest: "pages_from net (BranchesUrl (GHES_URL cfg) (ORG_NAME cfg) rname) (Suc page) ps w' = Some wk"
    by (auto split: prod.splits sum.splits option.splits if_splits)
  from Cons.prems(2) obtain names nss' where
    nss: "nss = names # nss'" "getitem_each ''name'' items = Inr names"
      "list_all2 (\<lambda>items names. getitem_each ''name'' items = Inr names) ps nss'"
    by (auto simp add: list_all2_Cons1)
  have "get_branches_loop cfg net rname branches page w =
          get_branches_loop cfg net rname (branches @ names) (Suc page) w'"
    using sr ok nss(2)
    by (intro get_branches_loop_next [where r = r and data = "JList items" and items = items])
       simp_all
  also have "\<dots> = get_branches_loop cfg net rname ((branches @ names) @ concat nss')
                     (Suc page + length ps) wk"
    by (rule Cons.IH [OF rest nss(3)])
  finally show ?case by (simp add: nss(1))
qed

lemma safe_request_success:
  assumes "net (length (requests w)) u = Returns r"
    and "\<not> (400 \<le> status_code r \<and> status_code r < 600)"
  shows "safe_request net u w =
           (Inr (Some r), w\<lparr>requests := requests w @ [u], calls := calls w @ [u]\<rparr>)"
  using attempt_success [of net "w\<lparr>calls := calls w @ [u]\<rparr>" u r] assms
  by (simp add: safe_request_def numeral_3_eq_3)

lemma attempt_error_caught:
  assumes "\<forall>i e. net i u = Raises e \<longrightarrow> caught_by_safe_request e"
    and "fst (attempt net u w) = Inl e"
  shows "caught_by_safe_request e"
  using assms
  by (auto simp add: attempt_def session_get_def raise_for_status_def
      split: get_outcome.splits if_splits)

lemma attempts_total:
  assumes "\<forall>i e. net i u = Raises e \<longrightarrow> caught_by_safe_request e"
  shows "\<exists>r. fst (attempts net u n w) = Inr r"
proof (induction n arbitrary: w)
  case 0
  show ?case by simp
next
  case (Suc n)
  obtain res w' where a: "attempt net u w = (res, w')" by (cases "attempt net u w")
  show ?case
  proof (cases res)
    case (Inl e)
    with a assms attempt_error_caught [where net = net and u = u and w = w and e = e]
    have "caught_by_safe_request e" by simp
    with a Inl Suc.IH [of w'] show ?thesis by simp
  next
    case (Inr r)
    with a show ?thesis by simp
  qed
qed

lemma three_http_errors_exhaust:
  assumes "\<forall>i<3. \<exists>r. net (length (requests w) + i) u = Returns r
              \<and> 400 \<le> status_code r \<and> status_code r < 600 \<and> status_code r \<noteq> 404"
  shows "safe_request net u w =
           (Inr None, w\<lparr>requests := requests w @ [u, u, u], calls := calls w @ [u]\<rparr>)"
proof -
  let ?w = "w\<lparr>calls := calls w @ [u]\<rparr>"
  have "\<forall>i<3. \<exists>e. fst (attempt net u (?w\<lparr>requests := requests ?w @ replicate i u\<rparr>)) = Inl e
              \<and> caught_by_safe_request e"
  proof (intro allI impI)
    fix i :: nat assume "i < 3"
    with assms obtain r where
      r: "net (length (requests w) + i) u = Returns r" "400 \<le> status_code r"
         "status_code r < 600" "status_code r \<noteq> 404" by blast
    have "attempt net u (?w\<lparr>requests := requests ?w @ replicate i u\<rparr>)
            = (Inl HTTPError, ?w\<lparr>requests := requests ?w @ replicate i u @ [u]\<rparr>)"
      using attempt_http_error [of net "?w\<lparr>requests := requests ?w @ replicate i u\<rparr>" u r] r
      by simp
    then show "\<exists>e. fst (attempt net u (?w\<lparr>requests := requests ?w @ replicate i u\<rparr>)) = Inl e
              \<and> caught_by_safe_request e" by simp
  qed
  from attempts_exhausted [OF this] show ?thesis
    by (simp add: safe_request_def numeral_3_eq_3)
qed

lemma safe_request_404:
  assumes "net (length (requests w)) u = Returns r" "status_code r = 404"
  shows "safe_request net u w =
           (Inr (Some r), w\<lparr>requests := requests w @ [u], calls := calls w @ [u]\<rparr>)"
  using attempt_404 [of net "w\<lparr>calls := calls w @ [u]\<rparr>" u r] assms
  by (simp add: safe_request_def numeral_3_eq_3)

lemma check_lfs_usage_probes:
  "check_lfs_usage cfg cd net rname bname w = (res, w') \<Longrightarrow>
   probes w' = probes w @ (case res of Inl e \<Rightarrow> [] | Inr b \<Rightarrow> [(rname, bname, b)])"
  using safe_request_probes
    [of net "GitattributesUrl (GHES_URL cfg) (ORG_NAME cfg) rname bname" w]
  by (auto simp add: check_lfs_usage_def split: prod.splits sum.splits)

lemma scan_branches_probes:
  "scan_branches cfg cd net rname bs w = (res, w') \<Longrightarrow>
   (case res of
      Inr verdict \<Rightarrow>
        (verdict = ''No'' \<and> probes w' = probes w @ map (\<lambda>b. (rname, b, False)) bs)
        \<or> (verdict = ''Yes'' \<and>
            (\<exists>pre b post. bs = pre @ b # post \<and>
               probes w' = probes w @ map (\<lambda>b. (rname, b, False)) pre @ [(rname, b, True)]))
    | Inl e \<Rightarrow>
        (\<exists>pre b post. bs = pre @ b # post \<and>
           probes w' = probes w @ map (\<lambda>b. (rname, b, False)) pre))"
proof (induction bs arbitrary: w)
  case Nil
  then show ?case by auto
next
  case (Cons b bs)
  obtain r1 w1 where c: "check_lfs_usage cfg cd net rname b w = (r1, w1)"
    by (cases "check_lfs_usage cfg cd net rname b w")
  note p1 = check_lfs_usage_probes [OF c]
  show ?case
  proof (cases r1)
    case (Inl e)
    with c Cons.prems have "res = Inl e" "w' = w1" by simp_all
    moreover have "b # bs = [] @ b # bs" by simp
    ultimately show ?thesis using p1 Inl by (auto intro!: exI [of _ "[]"])
  next
    case (Inr v)
    show ?thesis
    proof (cases v)
      case True
      with c Inr Cons.prems have "res = Inr ''Yes''" "w' = w1" by simp_all
      then show ?thesis using p1 Inr True by (auto intro!: exI [of _ "[]"])
    next
      case False
      with c Inr Cons.prems have rest: "scan_branches cfg cd net rname bs w1 = (res, w')" by simp
      have pw1: "probes w1 = probes w @ [(rname, b, False)]" using p1 Inr False by simp
      note IH = Cons.IH [OF rest]
      show ?thesis
      proof (cases res)
        case (Inl e)
        with IH obtain pre c post where
          "bs = pre @ c # post" "probes w' = probes w1 @ map (\<lambda>b. (rname, b, False)) pre"
          by auto
        then have "b # bs = (b # pre) @ c # post"
          "probes w' = probes w @ map (\<lambda>b. (rname, b, False)) (b # pre)"
          using pw1 by simp_all
        then show ?thesis using Inl by (simp only: sum.case) blast
      next
        case (Inr verdict)
        with IH consider
          (no) "verdict = ''No''" "probes w' = probes w1 @ map (\<lambda>b. (rname, b, False)) bs"
          | (yes) pre c post where "verdict = ''Yes''" "bs = pre @ c # post"
              "probes w' = probes w1 @ map (\<lambda>b. (rname, b, False)) pre @ [(rname, c, True)]"
          by auto
        then show ?thesis
        proof cases
          case no
          then show ?thesis using Inr pw1 by simp
        next
          case yes
          then have "b # bs = (b # pre) @ c # post"
            "probes w' = probes w @ map (\<lambda>b. (rname, b, False)) (b # pre) @ [(rname, c, True)]"
            using pw1 by simp_all
          then have "\<exists>pre b' post. b # bs = pre @ b' # post \<and>
               probes w' = probes w @ map (\<lambda>b. (rname, b, False)) pre @ [(rname, b', True)]"
            by blast
          then show ?thesis using Inr yes(1) by simp
        qed
      qed
    qed
  qed
qed

lemma marker_in_content_dict:
  "json_body r = Some (JDict d) \<Longrightarrow>
   (case map_of d ''content'' of None \<Rightarrow> JStr [] | Some v \<Rightarrow> v) = c \<Longrightarrow>
   marker_in_content cd r =
     (case c of
        JStr s \<Rightarrow>
          (case b64decode cd s of
             None \<Rightarrow> Inl ValueError
           | Some raw \<Rightarrow>
               (case utf8_decode cd raw of
                  None \<Rightarrow> Inl ValueError
                | Some txt \<Rightarrow> Inr (str_contains ''filter=lfs'' txt)))
      | _ \<Rightarrow> Inl TypeError)"
  by (simp add: marker_in_content_def json_of_def)

lemma marker_in_content_iff:
  "marker_in_content cd r = Inr True \<longleftrightarrow>
     (\<exists>d s raw txt. json_body r = Some (JDict d)
        \<and> (case map_of d ''content'' of None \<Rightarrow> JStr [] | Some v \<Rightarrow> v) = JStr s
        \<and> b64decode cd s = Some raw \<and> utf8_decode cd raw = Some txt
        \<and> str_contains ''filter=lfs'' txt)"
proof (cases "json_body r")
  case None
  then show ?thesis by (simp add: marker_in_content_def json_of_def)
next
  case (Some v)
  show ?thesis
  proof (cases "\<exists>d. v = JDict d")
    case False
    with Some show ?thesis
      by (cases v) (simp_all add: marker_in_content_def json_of_def)
  next
    case True
    then obtain d where d: "v = JDict d" by blast
    define c where "c = (case map_of d ''content'' of None \<Rightarrow> JStr [] | Some v \<Rightarrow> v)"
    have body: "json_body r = Some (JDict d)" using Some d by simp
    have m: "marker_in_content cd r =
     (case c of
        JStr s \<Rightarrow>
          (case b64decode cd s of
             None \<Rightarrow> Inl ValueError
           | Some raw \<Rightarrow>
               (case utf8_decode cd raw of
                  None \<Rightarrow> Inl ValueError
                | Some txt \<Rightarrow> Inr (str_contains ''filter=lfs'' txt)))
      | _ \<Rightarrow> Inl TypeError)"
      by (rule marker_in_content_dict [OF body c_def [symmetric]])
    show ?thesis
    proof (cases "\<exists>s. c = JStr s")
      case False
      then have "marker_in_content cd r = Inl TypeError"
        using m by (cases c) simp_all
      moreover have "\<not> (\<exists>s. (case map_of d ''content'' of None \<Rightarrow> JStr [] | Some v \<Rightarrow> v) = JStr s)"
        using False c_def by simp
      ultimately show ?thesis using body by auto
    next
      case True
      then obtain s where s: "c = JStr s" by blast
      have cs: "(case map_of d ''content'' of None \<Rightarrow> JStr [] | Some v \<Rightarrow> v) = JStr s"
        using s c_def by simp
      have "marker_in_content cd r =
          (case b64decode cd s of
             None \<Rightarrow> Inl ValueError
           | Some raw \<Rightarrow>
               (case utf8_decode cd raw of
                  None \<Rightarrow> Inl ValueError
                | Some txt \<Rightarrow> Inr (str_contains ''filter=lfs'' txt)))"
        using m s by simp
      then have "marker_in_content cd r = Inr True \<longleftrightarrow>
          (\<exists>raw txt. b64decode cd s = Some raw \<and> utf8_decode cd raw = Some txt
              \<and> str_contains ''filter=lfs'' txt)"
        by (auto split: option.splits)
      then show ?thesis using body cs by auto
    qed
  qed
qed

lemma lfs_verdict_iff:
  "lfs_verdict cd response \<longleftrightarrow>
     (\<exists>r. response = Some r \<and> status_code r = 200 \<and> marker_in_content cd r = Inr True)"
proof (cases response)
  case None
  then show ?thesis by (simp add: lfs_verdict_def)
next
  case (Some r)
  then show ?thesis
    by (auto simp add: lfs_verdict_def response_ok_def raise_for_status_def
        split: sum.splits bool.splits)
qed

lemma str_contains_iff: "str_contains needle hay \<longleftrightarrow> (\<exists>p s. hay = p @ needle @ s)"
proof (induction hay)
  case Nil
  then show ?case by auto
next
  case (Cons c cs)
  have "take (length needle) (c # cs) = needle \<longleftrightarrow> (\<exists>s. c # cs = needle @ s)"
    by (metis append_eq_conv_conj append_take_drop_id)
  moreover have "(\<exists>p s. c # cs = p @ needle @ s) \<longleftrightarrow>
      (\<exists>s. c # cs = needle @ s) \<or> (\<exists>p s. cs = p @ needle @ s)"
  proof
    assume "\<exists>p s. c # cs = p @ needle @ s"
    then obtain p s where ps: "c # cs = p @ needle @ s" by blast
    show "(\<exists>s. c # cs = needle @ s) \<or> (\<exists>p s. cs = p @ needle @ s)"
    proof (cases p)
      case Nil
      with ps show ?thesis by auto
    next
      case (Cons a p')
      with ps have "cs = p' @ needle @ s" by simp
      then show ?thesis by blast
    qed
  next
    assume "(\<exists>s. c # cs = needle @ s) \<or> (\<exists>p s. cs = p @ needle @ s)"
    then show "\<exists>p s. c # cs = p @ needle @ s"
    proof
      assume "\<exists>s. c # cs = needle @ s"
      then obtain s where "c # cs = [] @ needle @ s" by auto
      then show ?thesis by blast
    next
      assume "\<exists>p s. cs = p @ needle @ s"
      then obtain p s where "c # cs = (c # p) @ needle @ s" by auto
      then show ?thesis by blast
    qed
  qed
  ultimately show ?case using Cons.IH by simp
qed

lemma audit_repo_row:
  assumes "audit_repo cfg cd net repo w = Some (Inr row, w2)"
  shows "\<exists>rn branches w1.
           getitem repo ''name'' = Inr rn
           \<and> get_branches cfg net rn w = Some (Inr branches, w1)
           \<and> scan_branches cfg cd net rn branches w1 = (Inr (using_lfs row), w2)
           \<and> repository row = rn
           \<and> py_join '', '' branches = Inr (branches_joined row)"
  using assms
  by (auto simp add: audit_repo_def split: sum.splits option.splits prod.splits if_splits)

lemma audit_alpha_run:
  "audit_repo cfg0 codec_plain net_lfs repo_alpha world0 =
     Some (Inr \<lparr>repository = JStr ''alpha'', branches_joined = ''main, dev'', using_lfs = ''Yes''\<rparr>,
       \<lparr>requests = [BranchesUrl (GHES_URL cfg0) (ORG_NAME cfg0) (JStr ''alpha'') 1,
                    BranchesUrl (GHES_URL cfg0) (ORG_NAME cfg0) (JStr ''alpha'') 2,
                    GitattributesUrl (GHES_URL cfg0) (ORG_NAME cfg0) (JStr ''alpha'') (JStr ''main''),
                    GitattributesUrl (GHES_URL cfg0) (ORG_NAME cfg0) (JStr ''alpha'') (JStr ''dev'')],
        calls = [BranchesUrl (GHES_URL cfg0) (ORG_NAME cfg0) (JStr ''alpha'') 1,
                 BranchesUrl (GHES_URL cfg0) (ORG_NAME cfg0) (JStr ''alpha'') 2,
                 GitattributesUrl (GHES_URL cfg0) (ORG_NAME cfg0) (JStr ''alpha'') (JStr ''main''),
                 GitattributesUrl (GHES_URL cfg0) (ORG_NAME cfg0) (JStr ''alpha'') (JStr ''dev'')],
        probes = [(JStr ''alpha'', JStr ''main'', False), (JStr ''alpha'', JStr ''dev'', True)]\<rparr>)"
proof -
  let ?b = "BranchesUrl (GHES_URL cfg0) (ORG_NAME cfg0) (JStr ''alpha'')"
  let ?g = "GitattributesUrl (GHES_URL cfg0) (ORG_NAME cfg0) (JStr ''alpha'')"
  let ?items = "[JDict [(''name'', JStr ''main'')], JDict [(''name'', JStr ''dev'')]]"
  let ?w1 = "\<lparr>requests = [?b 1], calls = [?b 1], probes = []\<rparr>"
  let ?w2 = "\<lparr>requests = [?b 1, ?b 2], calls = [?b 1, ?b 2], probes = []\<rparr>"
  let ?w3 = "\<lparr>requests = [?b 1, ?b 2, ?g (JStr ''main'')],
             calls = [?b 1, ?b 2, ?g (JStr ''main'')],
             probes = [(JStr ''alpha'', JStr ''main'', False)]\<rparr>"
  let ?r200 = "\<lparr>status_code = 200,
              json_body = Some (JDict [(''content'', JStr ''*.bin filter=lfs diff=lfs'')]),
              x_ratelimit_remaining = Absent, x_ratelimit_reset = Absent\<rparr>"
  let ?r404 = "\<lparr>status_code = 404, json_body = Some (JDict [(''message'', JStr ''Not Found'')]),
              x_ratelimit_remaining = Absent, x_ratelimit_reset = Absent\<rparr>"
  have ok: "response_ok (page_response items)" "json_of (page_response items) = Inr (JList items)"
    for items
    by (simp_all add: response_ok_def raise_for_status_def page_response_def json_of_def)
  have s1: "safe_request net_lfs (?b 1) world0 = (Inr (Some (page_response ?items)), ?w1)"
    using safe_request_success [of net_lfs world0 "?b 1" "page_response ?items"]
    by (simp add: net_lfs_def world0_def page_response_def)
  have s2: "safe_request net_lfs (?b 2) ?w1 = (Inr (Some (page_response [])), ?w2)"
    using safe_request_success [of net_lfs ?w1 "?b 2" "page_response []"]
    by (simp add: net_lfs_def page_response_def)
  have n1: "get_branches_loop cfg0 net_lfs (JStr ''alpha'') [] 1 world0 =
          get_branches_loop cfg0 net_lfs (JStr ''alpha'') [JStr ''main'', JStr ''dev''] 2 ?w1"
    using s1 ok get_branches_loop_next [where r = "page_response ?items" and data = "JList ?items"
          and items = ?items and names = "[JStr ''main'', JStr ''dev'']" and cfg = cfg0
          and net = net_lfs and rname = "JStr ''alpha''" and page = 1 and w = world0 and w' = ?w1
          and branches = "[]"]
    by (simp add: numeral_2_eq_2)
  have n2: "get_branches_loop cfg0 net_lfs (JStr ''alpha'') [JStr ''main'', JStr ''dev''] 2 ?w1
              = Some (Inr [JStr ''main'', JStr ''dev''], ?w2)"
    using s2 ok get_branches_loop_empty [where r = "page_response []" and data = "JList []"
          and cfg = cfg0 and net = net_lfs and rname = "JStr ''alpha''" and page = 2 and w = ?w1
          and w' = ?w2 and branches = "[JStr ''main'', JStr ''dev'']"]
    by (simp add: numeral_2_eq_2)
  have gb: "get_branches cfg0 net_lfs (JStr ''alpha'') world0 =
      Some (Inr [JStr ''main'', JStr ''dev''], ?w2)"
    using n1 n2 by (simp add: get_branches_def)
  have g1: "safe_request net_lfs (?g (JStr ''main'')) ?w2 = (Inr (Some ?r404),
      \<lparr>requests = [?b 1, ?b 2, ?g (JStr ''main'')], calls = [?b 1, ?b 2, ?g (JStr ''main'')],
       probes = []\<rparr>)"
    using safe_request_404 [of net_lfs ?w2 "?g (JStr ''main'')" ?r404]
    by (simp add: net_lfs_def)
  have g2: "safe_request net_lfs (?g (JStr ''dev'')) ?w3 = (Inr (Some ?r200),
      \<lparr>requests = [?b 1, ?b 2, ?g (JStr ''main''), ?g (JStr ''dev'')],
       calls = [?b 1, ?b 2, ?g (JStr ''main''), ?g (JStr ''dev'')],
       probes = [(JStr ''alpha'', JStr ''main'', False)]\<rparr>)"
    using safe_request_success [of net_lfs ?w3 "?g (JStr ''dev'')" ?r200]
    by (simp add: net_lfs_def)
  have v1: "lfs_verdict codec_plain (Some ?r404) = False"
    by (simp add: lfs_verdict_def response_ok_def raise_for_status_def)
  have v2: "lfs_verdict codec_plain (Some ?r200) = True"
    by (simp add: lfs_verdict_def response_ok_def raise_for_status_def marker_in_content_def
        json_of_def codec_plain_def)
  have sc: "scan_branches cfg0 codec_plain net_lfs (JStr ''alpha'') [JStr ''main'', JStr ''dev''] ?w2
      = (Inr ''Yes'',
         \<lparr>requests = [?b 1, ?b 2, ?g (JStr ''main''), ?g (JStr ''dev'')],
          calls = [?b 1, ?b 2, ?g (JStr ''main''), ?g (JStr ''dev'')],
          probes = [(JStr ''alpha'', JStr ''main'', False), (JStr ''alpha'', JStr ''dev'', True)]\<rparr>)"
    using g1 g2 v1 v2 by (simp add: check_lfs_usage_def)
  show ?thesis
    using gb sc by (simp add: audit_repo_def repo_alpha_def py_join_def)
qed

lemma str_items_strings: "str_items (map JStr ss) = Inr ss"
  by (induction ss) simp_all

lemma getitem_each_names:
  "list_all2 (\<lambda>lang name. getitem lang ''name'' = Inr (JStr name)) langs names \<Longrightarrow>
   getitem_each ''name'' langs = Inr (map JStr names)"
  by (induction langs names rule: list_all2_induct) simp_all

lemma intersperse_str_concat:
  "intersperse_str sep (x # xs) = x @ concat (map (\<lambda>y. sep @ y) xs)"
  by (induction xs arbitrary: x) simp_all

lemma languages_of_names:
  assumes "get_path repo [''languages'', ''nodes''] = Inr (JList langs)"
    and "list_all2 (\<lambda>lang name. getitem lang ''name'' = Inr (JStr name)) langs names"
  shows "languages_of repo = Inr (if names = [] then ''N/A'' else intersperse_str '', '' names)"
proof -
  have len: "length langs = length names" using assms(2) by (rule list_all2_lengthD)
  show ?thesis
  proof (cases "names = []")
    case True
    with len have "langs = []" by simp
    with assms(1) True show ?thesis by (simp add: languages_of_def and_then_def)
  next
    case False
    with len have "langs \<noteq> []" by auto
    with assms(1) getitem_each_names [OF assms(2)] False show ?thesis
      by (simp add: languages_of_def and_then_def py_join_def str_items_strings)
  qed
qed

lemma normalize_repo_fields:
  assumes "normalize_repo repo = Inr row"
  shows "languages_of repo = Inr (languages row)"
    and "getitem repo ''name'' = Inr (repo_name row)"
    and "repo_size_mb_of repo = Inr (repo_size_mb row)"
    and "total_commits_of repo = Inr (total_commits row)"
    and "get_path repo [''branches'', ''totalCount''] = Inr (total_branches row)"
  using assms
  by (auto simp add: normalize_repo_def and_then_def split: sum.splits)

lemma normalize_repo_success:
  assumes "languages_of repo = Inr langs"
    and "getitem repo ''name'' = Inr name"
    and "repo_size_mb_of repo = Inr size_mb"
    and "getitem repo ''visibility'' = Inr vis"
    and "total_commits_of repo = Inr commits"
    and "get_path repo [''branches'', ''totalCount''] = Inr c1"
    and "get_path repo [''pullRequests'', ''totalCount''] = Inr c2"
    and "get_path repo [''mergedPRs'', ''totalCount''] = Inr c3"
    and "get_path repo [''closedPRs'', ''totalCount''] = Inr c4"
    and "get_path repo [''issues'', ''totalCount''] = Inr c5"
    and "get_path repo [''closedIssues'', ''totalCount''] = Inr c6"
    and "get_path repo [''releases'', ''totalCount''] = Inr c7"
    and "get_path repo [''tags'', ''totalCount''] = Inr c8"
    and "getitem repo ''pushedAt'' = Inr pushed"
    and "getitem repo ''updatedAt'' = Inr updated"
  shows "normalize_repo repo =
       Inr \<lparr>repo_name = name, repo_size_mb = size_mb, visibility = vis,
            total_commits = commits, total_branches = c1, open_prs = c2,
            merged_prs = c3, closed_prs = c4, open_issues = c5,
            closed_issues = c6, releases = c7, tags = c8,
            languages = langs, last_pushed_at = pushed,
            last_updated_at = updated\<rparr>"
  unfolding normalize_repo_def and_then_def
  by (simp only: assms sum.case)

lemma rate_limit_wait_keeps:
  assumes "rate_limit_wait env response s = (res, s')"
  shows "has_next_page s' = has_next_page s" "cursor s' = cursor s"
    "repo_data s' = repo_data s" "posted s' = posted s"
  using assms
  by (auto simp add: rate_limit_wait_def Let_def split: header_value.splits sum.splits if_splits)

lemma normalize_each_appends: "\<exists>new. snd (normalize_each nodes acc) = acc @ new"
proof (induction nodes arbitrary: acc)
  case Nil
  show ?case by simp
next
  case (Cons node nodes)
  show ?case
  proof (cases "normalize_repo node")
    case (Inl e)
    then show ?thesis by simp
  next
    case (Inr row)
    from Cons.IH [of "acc @ [row]"] obtain new where
      "snd (normalize_each nodes (acc @ [row])) = (acc @ [row]) @ new" by blast
    with Inr have "snd (normalize_each (node # nodes) acc) = acc @ (row # new)" by simp
    then show ?thesis by blast
  qed
qed

lemma finish_page_keeps:
  assumes "finish_page env response page_info s1 = (res, s')"
  shows "posted s' = posted s1" "repo_data s' = repo_data s1"
  using assms
  by (auto simp add: finish_page_def split: sum.splits prod.splits
      dest: rate_limit_wait_keeps(3,4))

lemma finish_page_next:
  assumes "finish_page env response page_info s1 = (Inr c, s')"
  shows "c = Next" "getitem page_info ''hasNextPage'' = Inr (has_next_page s')"
    "getitem page_info ''endCursor'' = Inr (cursor s')"
  using assms
  by (auto simp add: finish_page_def split: sum.splits prod.splits
      dest: rate_limit_wait_keeps(1,2))

lemma process_page_keeps:
  assumes "process_page env response json_data s0 = (res, s')"
  shows "posted s' = posted s0" "\<exists>new. repo_data s' = repo_data s0 @ new"
proof -
  have n: "\<exists>new. acc = repo_data s0 @ new"
    if "normalize_each nodes (repo_data s0) = (r, acc)" for nodes r acc
    using normalize_each_appends [of nodes "repo_data s0"] that by simp
  show "posted s' = posted s0"
    using assms
    by (auto simp add: process_page_def simp del: get_path.simps
        split: sum.splits prod.splits option.splits dest: finish_page_keeps(1))
  show "\<exists>new. repo_data s' = repo_data s0 @ new"
    using assms
    by (auto simp add: process_page_def simp del: get_path.simps
        split: sum.splits prod.splits option.splits dest!: finish_page_keeps(2) n)
qed

lemma process_page_next:
  assumes "process_page env response json_data s0 = (Inr c, s')"
  shows "\<exists>page_info.
           get_path json_data [''data'', ''organization'', ''repositories'', ''pageInfo'']
             = Inr page_info
           \<and> getitem page_info ''hasNextPage'' = Inr (has_next_page s')
           \<and> getitem page_info ''endCursor'' = Inr (cursor s') \<and> c = Next"
  using assms
  by (auto simp add: process_page_def simp del: get_path.simps
      split: sum.splits prod.splits option.splits dest: finish_page_next)

lemma try_body_posted: "posted (snd (try_body env s)) = posted s @ [cursor s]"
proof -
  obtain res s' where t: "try_body env s = (res, s')" by (cases "try_body env s")
  then have "posted s' = posted s @ [cursor s]"
    by (auto simp add: try_body_def Let_def
        split: get_outcome.splits sum.splits if_splits bool.splits
        dest!: process_page_keeps(1))
  with t show ?thesis by simp
qed

lemma try_body_rows: "\<exists>new. repo_data (snd (try_body env s)) = repo_data s @ new"
proof -
  obtain res s' where t: "try_body env s = (res, s')" by (cases "try_body env s")
  then have "\<exists>new. repo_data s' = repo_data s @ new"
    by (auto simp add: try_body_def Let_def
        split: get_outcome.splits sum.splits if_splits bool.splits
        dest!: process_page_keeps(2))
  with t show ?thesis by simp
qed

text \<open>What a completed iteration has done.\<close>

lemma try_body_next:
  assumes "try_body env s = (Inr Next, s')"
  shows "\<exists>response json_data page_info.
           http_post env (length (posted s)) (cursor s) = Returns response
           \<and> status_code response = 200
           \<and> json_of response = Inr json_data
           \<and> get_path json_data [''data'', ''organization'', ''repositories'', ''pageInfo'']
               = Inr page_info
           \<and> getitem page_info ''hasNextPage'' = Inr (has_next_page s')
           \<and> getitem page_info ''endCursor'' = Inr (cursor s')"
  using assms
  by (auto simp add: try_body_def Let_def simp del: get_path.simps
      split: get_outcome.splits sum.splits if_splits bool.splits
      dest!: process_page_next)

lemma loop_body_posted: "posted (snd (loop_body env s)) = posted s @ [cursor s]"
  using try_body_posted [of env s]
  by (cases "try_body env s") (auto simp add: loop_body_def split: sum.splits)

lemma loop_body_rows: "\<exists>new. repo_data (snd (loop_body env s)) = repo_data s @ new"
  using try_body_rows [of env s]
  by (cases "try_body env s") (auto simp add: loop_body_def split: sum.splits)

lemma loop_body_next_iff:
  "loop_body env s = (Next, s') \<longleftrightarrow> try_body env s = (Inr Next, s')"
  by (cases "try_body env s") (auto simp add: loop_body_def split: sum.splits)

lemma fetch_loop_break:
  "truthy (has_next_page s) \<Longrightarrow> loop_body env s = (Break, s') \<Longrightarrow> fetch_loop env s = Some s'"
  by (subst fetch_loop.simps) simp

lemma fetch_loop_next:
  "truthy (has_next_page s) \<Longrightarrow> loop_body env s = (Next, s') \<Longrightarrow>
   fetch_loop env s = fetch_loop env s'"
  by (subst fetch_loop.simps) simp

lemma fetch_loop_done:
  "\<not> truthy (has_next_page s) \<Longrightarrow> fetch_loop env s = Some s"
  by (subst fetch_loop.simps) simp

lemma normalize_node_alpha: "normalize_repo node_alpha = Inr row_alpha"
  by (simp add: normalize_repo_def node_alpha_def row_alpha_def repo_node_def count_of_def
      commits_ref_def and_then_def languages_of_def repo_size_mb_of_def total_commits_of_def
      round2_div_1024_def py_join_def)

lemma page_json_paths:
  "get_path (page_json nodes flag c) [''data'', ''organization'', ''repositories'', ''nodes'']
     = Inr (JList nodes)"
  "get_path (page_json nodes flag c) [''data'', ''organization'', ''repositories'', ''pageInfo'']
     = Inr (JDict [(''hasNextPage'', flag), (''endCursor'', c)])"
  "py_in_str ''errors'' (page_json nodes flag c) = Inr False"
  by (simp_all add: page_json_def and_then_def)

lemma process_page_plain:
  assumes "x_ratelimit_remaining response = IntText n" "10 \<le> n"
    and "normalize_each nodes (repo_data s0) = (None, acc)"
  shows "process_page env response (page_json nodes flag c) s0 =
           (Inr Next, s0\<lparr>repo_data := acc, has_next_page := flag, cursor := c\<rparr>)"
  using assms
  by (simp add: process_page_def finish_page_def rate_limit_wait_def page_json_paths
      del: get_path.simps)

lemma try_body_plain:
  assumes "http_post env (length (posted s)) (cursor s)
             = Returns (gql_response (page_json nodes flag c) (IntText n) reset)"
    and "10 \<le> n"
    and "normalize_each nodes (repo_data s) = (None, acc)"
  shows "try_body env s =
           (Inr Next, s\<lparr>posted := posted s @ [cursor s], repo_data := acc,
                         has_next_page := flag, cursor := c\<rparr>)"
proof -
  let ?r = "gql_response (page_json nodes flag c) (IntText n) reset"
  let ?s0 = "s\<lparr>posted := posted s @ [cursor s]\<rparr>"
  have "process_page env ?r (page_json nodes flag c) ?s0 =
           (Inr Next, ?s0\<lparr>repo_data := acc, has_next_page := flag, cursor := c\<rparr>)"
    using assms(2,3) by (intro process_page_plain) (simp_all add: gql_response_def)
  then show ?thesis
    using assms(1)
    by (simp add: try_body_def Let_def json_of_def page_json_paths(3) gql_response_def)
qed

lemma try_body_errors:
  assumes "http_post env (length (posted s)) (cursor s) = Returns response"
    and "status_code response = 200" and "json_of response = Inr json_data"
    and "py_in_str ''errors'' json_data = Inr True"
  shows "try_body env s = (Inr Break, s\<lparr>posted := posted s @ [cursor s]\<rparr>)"
  using assms by (simp add: try_body_def Let_def)

lemma two_pages_first:
  "try_body env_two_pages initial_state =
     (Inr Next, \<lparr>has_next_page = JBool True, cursor = JStr ''c1'', repo_data = [row_alpha],
                 posted = [JNull], clock_reads = 0, sleeps = []\<rparr>)"
  using try_body_plain [where env = env_two_pages and s = initial_state
      and nodes = "[node_alpha]" and flag = "JBool True" and c = "JStr ''c1''" and n = 4999
      and reset = "IntText 1700003600" and acc = "[row_alpha]"]
  by (simp add: env_two_pages_def initial_state_def normalize_node_alpha)

lemma two_pages_second:
  "try_body env_two_pages
     \<lparr>has_next_page = JBool True, cursor = JStr ''c1'', repo_data = [row_alpha],
      posted = [JNull], clock_reads = 0, sleeps = []\<rparr> =
     (Inr Next, \<lparr>has_next_page = JBool False, cursor = JNull, repo_data = [row_alpha],
                 posted = [JNull, JStr ''c1''], clock_reads = 0, sleeps = []\<rparr>)"
  using try_body_plain [where env = env_two_pages
      and s = "\<lparr>has_next_page = JBool True, cursor = JStr ''c1'', repo_data = [row_alpha],
                 posted = [JNull], clock_reads = 0, sleeps = []\<rparr>"
      and nodes = "[]" and flag = "JBool False" and c = JNull and n = 4999
      and reset = "IntText 1700003600" and acc = "[row_alpha]"]
  by (simp add: env_two_pages_def)

text \<open>A row is made of exactly the fifteen reads of the dictionary literal.\<close>

lemma normalize_repo_reads:
  assumes "normalize_repo repo = Inr row"
  shows "languages_of repo = Inr (languages row)
       \<and> getitem repo ''name'' = Inr (repo_name row)
       \<and> repo_size_mb_of repo = Inr (repo_size_mb row)
       \<and> getitem repo ''visibility'' = Inr (visibility row)
       \<and> total_commits_of repo = Inr (total_commits row)
       \<and> get_path repo [''branches'', ''totalCount''] = Inr (total_branches row)
       \<and> get_path repo [''pullRequests'', ''totalCount''] = Inr (open_prs row)
       \<and> get_path repo [''mergedPRs'', ''totalCount''] = Inr (merged_prs row)
       \<and> get_path repo [''closedPRs'', ''totalCount''] = Inr (closed_prs row)
       \<and> get_path repo [''issues'', ''totalCount''] = Inr (open_issues row)
       \<and> get_path repo [''closedIssues'', ''totalCount''] = Inr (closed_issues row)
       \<and> get_path repo [''releases'', ''totalCount''] = Inr (releases row)
       \<and> get_path repo [''tags'', ''totalCount''] = Inr (tags row)
       \<and> getitem repo ''pushedAt'' = Inr (last_pushed_at row)
       \<and> getitem repo ''updatedAt'' = Inr (last_updated_at row)"
  using assms
  unfolding normalize_repo_def and_then_def
  by (auto simp del: get_path.simps split: sum.splits)

lemma normalize_repo_count_paths:
  assumes "normalize_repo repo = Inr row" and "k \<in> set count_keys"
  shows "\<exists>v. get_path repo [k, ''totalCount''] = Inr v"
  using normalize_repo_reads [OF assms(1)] assms(2)
  by (auto simp add: count_keys_def simp del: get_path.simps)

lemma null_has_no_count:
  "getitem repo k = Inr JNull \<Longrightarrow> get_path repo [k, ''totalCount''] = Inl TypeError"
  by (simp add: and_then_def)

text \<open>
  The cursor logic of an iteration that runs to its end without an exception: the loop
  variables hold the \<open>hasNextPage\<close> and \<open>endCursor\<close> of the response just received, the
  loop goes on exactly when that flag is true, and the call of the next iteration is made
  with that \<open>endCursor\<close>. The first call is made with a null cursor.
\<close>

lemma completed_iteration_step:
  assumes "truthy (has_next_page s)" and "try_body env s = (Inr Next, s')"
  shows "(\<exists>response json_data page_info.
            http_post env (length (posted s)) (cursor s) = Returns response
            \<and> json_of response = Inr json_data
            \<and> get_path json_data [''data'', ''organization'', ''repositories'', ''pageInfo'']
                = Inr page_info
            \<and> getitem page_info ''hasNextPage'' = Inr (has_next_page s')
            \<and> getitem page_info ''endCursor'' = Inr (cursor s'))
       \<and> posted s' = posted s @ [cursor s]
       \<and> fetch_loop env s = (if truthy (has_next_page s') then fetch_loop env s' else Some s')
       \<and> posted (snd (loop_body env s')) = posted s @ [cursor s, cursor s']
       \<and> posted (snd (loop_body env initial_state)) = [JNull]"
proof (intro conjI)
  from try_body_next [OF assms(2)]
  show "\<exists>response json_data page_info.
            http_post env (length (posted s)) (cursor s) = Returns response
            \<and> json_of response = Inr json_data
            \<and> get_path json_data [''data'', ''organization'', ''repositories'', ''pageInfo'']
                = Inr page_info
            \<and> getitem page_info ''hasNextPage'' = Inr (has_next_page s')
            \<and> getitem page_info ''endCursor'' = Inr (cursor s')"
    by blast
  show p: "posted s' = posted s @ [cursor s]"
    using try_body_posted [of env s] assms(2) by simp
  have lb: "loop_body env s = (Next, s')"
    using assms(2) by (simp add: loop_body_next_iff)
  show "fetch_loop env s = (if truthy (has_next_page s') then fetch_loop env s' else Some s')"
    using fetch_loop_next [OF assms(1) lb] fetch_loop_done [of s' env] by simp
  show "posted (snd (loop_body env s')) = posted s @ [cursor s, cursor s']"
    using loop_body_posted [of env s'] p by simp
  show "posted (snd (loop_body env initial_state)) = [JNull]"
    using loop_body_posted [of env initial_state] by (simp add: initial_state_def)
qed

lemma two_pages_run:
  "fetch_loop env_two_pages initial_state =
     Some \<lparr>has_next_page = JBool False, cursor = JNull, repo_data = [row_alpha],
           posted = [JNull, JStr ''c1''], clock_reads = 0, sleeps = []\<rparr>"
proof -
  let ?s1 = "\<lparr>has_next_page = JBool True, cursor = JStr ''c1'', repo_data = [row_alpha],
              posted = [JNull], clock_reads = 0, sleeps = []\<rparr>"
  let ?s2 = "\<lparr>has_next_page = JBool False, cursor = JNull, repo_data = [row_alpha],
              posted = [JNull, JStr ''c1''], clock_reads = 0, sleeps = []\<rparr>"
  have t0: "truthy (has_next_page initial_state)" by (simp add: initial_state_def)
  have t1: "truthy (has_next_page ?s1)" by simp
  from completed_iteration_step [OF t0 two_pages_first]
  have "fetch_loop env_two_pages initial_state = fetch_loop env_two_pages ?s1" by simp
  also from completed_iteration_step [OF t1 two_pages_second]
  have "fetch_loop env_two_pages ?s1 = Some ?s2" by simp
  finally show ?thesis .
qed

text \<open>A well-formed page received below the low-water mark, when the sleep raises: the
  iteration has already stored the flag and the cursor, and the handler ends the loop.\<close>

lemma fetch_loop_sleep_raises:
  assumes "truthy (has_next_page s)"
    and "http_post env (length (posted s)) (cursor s)
           = Returns (gql_response (page_json nodes flag c) (IntText n) (IntText reset))"
    and "n < 10" and "float_of_int_ok reset"
    and "normalize_each nodes (repo_data s) = (None, acc)"
    and "time_sleep (real_of_int reset - time_time env (Suc (clock_reads s)) + 5) = Inl e"
  shows "fetch_loop env s =
           Some (s\<lparr>posted := posted s @ [cursor s], repo_data := acc, has_next_page := flag,
                     cursor := c, clock_reads := Suc (Suc (clock_reads s))\<rparr>)"
proof -
  let ?r = "gql_response (page_json nodes flag c) (IntText n) (IntText reset)"
  let ?s0 = "s\<lparr>posted := posted s @ [cursor s]\<rparr>"
  let ?sf = "s\<lparr>posted := posted s @ [cursor s], repo_data := acc, has_next_page := flag,
                     cursor := c, clock_reads := Suc (Suc (clock_reads s))\<rparr>"
  have "process_page env ?r (page_json nodes flag c) ?s0 = (Inl e, ?sf)"
    using assms(3-6)
    by (simp add: process_page_def finish_page_def rate_limit_wait_def page_json_paths
        gql_response_def Let_def del: get_path.simps)
  then have "try_body env s = (Inl e, ?sf)"
    using assms(2)
    by (simp add: try_body_def Let_def json_of_def page_json_paths(3) gql_response_def)
  then have "loop_body env s = (Break, ?sf)"
    by (simp add: loop_body_def)
  with assms(1) show ?thesis by (rule fetch_loop_break)
qed

section \<open>Claims\<close>

text \<open>
  C5: when three consecutive attempts of \<open>safe_request\<close> end in a timeout or a connection
  error, it returns \<open>None\<close> after exactly three requests and raises nothing; each of its
  callers (\<open>get_repositories\<close>, \<open>get_branches\<close>, \<open>check_lfs_usage\<close>) then returns
  normally: the accumulated list, or \<open>False\<close>.
\<close>

theorem safe_request_three_failures:
  assumes "\<forall>i<3. net (length (requests w) + i) u = Raises Timeout
               \<or> net (length (requests w) + i) u = Raises ConnectionError"
  shows "safe_request net u w =
           (Inr None, w\<lparr>requests := requests w @ [u, u, u], calls := calls w @ [u]\<rparr>)
       \<and> (\<forall>org page repos. u = OrgReposUrl (GHES_URL cfg) org page \<longrightarrow>
            get_repositories_loop cfg net org repos page w =
              Some (Inr repos, w\<lparr>requests := requests w @ [u, u, u], calls := calls w @ [u]\<rparr>))
       \<and> (\<forall>rname page branches. u = BranchesUrl (GHES_URL cfg) (ORG_NAME cfg) rname page \<longrightarrow>
            get_branches_loop cfg net rname branches page w =
              Some (Inr branches, w\<lparr>requests := requests w @ [u, u, u], calls := calls w @ [u]\<rparr>))
       \<and> (\<forall>rname bname.
            u = GitattributesUrl (GHES_URL cfg) (ORG_NAME cfg) rname bname \<longrightarrow>
            check_lfs_usage cfg cd net rname bname w =
              (Inr False, w\<lparr>requests := requests w @ [u, u, u], calls := calls w @ [u],
                             probes := probes w @ [(rname, bname, False)]\<rparr>))"
proof -
  have "\<forall>i<3. \<exists>e. net (length (requests w) + i) u = Raises e \<and> caught_by_safe_request e"
    using assms by (metis caught_by_safe_request.simps(1,2))
  then have sr: "safe_request net u w =
           (Inr None, w\<lparr>requests := requests w @ [u, u, u], calls := calls w @ [u]\<rparr>)"
    by (rule three_failures_exhaust)
  show ?thesis
  proof (intro conjI allI impI)
    show "safe_request net u w =
           (Inr None, w\<lparr>requests := requests w @ [u, u, u], calls := calls w @ [u]\<rparr>)"
      by (rule sr)
  next
    fix org page repos assume "u = OrgReposUrl (GHES_URL cfg) org page"
    with sr show "get_repositories_loop cfg net org repos page w =
              Some (Inr repos, w\<lparr>requests := requests w @ [u, u, u], calls := calls w @ [u]\<rparr>)"
      by (simp add: get_repositories_loop_stop)
  next
    fix rname page branches
    assume "u = BranchesUrl (GHES_URL cfg) (ORG_NAME cfg) rname page"
    with sr show "get_branches_loop cfg net rname branches page w =
              Some (Inr branches, w\<lparr>requests := requests w @ [u, u, u], calls := calls w @ [u]\<rparr>)"
      by (simp add: get_branches_loop_stop)
  next
    fix rname bname
    assume "u = GitattributesUrl (GHES_URL cfg) (ORG_NAME cfg) rname bname"
    with sr show "check_lfs_usage cfg cd net rname bname w =
              (Inr False, w\<lparr>requests := requests w @ [u, u, u], calls := calls w @ [u],
                             probes := probes w @ [(rname, bname, False)]\<rparr>)"
      by (simp add: check_lfs_usage_falsy)
  qed
qed

theorem safe_request_three_failures_witness:
  "net_down (length (requests world0) + 0) (OrgReposUrl (GHES_URL cfg0) ''acme'' 2) = Raises Timeout
   \<and> net_down (length (requests world0) + 1) (OrgReposUrl (GHES_URL cfg0) ''acme'' 2)
       = Raises ConnectionError
   \<and> net_down (length (requests world0) + 2) (OrgReposUrl (GHES_URL cfg0) ''acme'' 2) = Raises Timeout
   \<and> safe_request net_down (OrgReposUrl (GHES_URL cfg0) ''acme'' 2) world0
       = (Inr None,
          \<lparr>requests = replicate 3 (OrgReposUrl (GHES_URL cfg0) ''acme'' 2),
           calls = [OrgReposUrl (GHES_URL cfg0) ''acme'' 2], probes = []\<rparr>)
   \<and> get_repositories_loop cfg0 net_down ''acme'' [JStr ''kept''] 2 world0
       = Some (Inr [JStr ''kept''],
          \<lparr>requests = replicate 3 (OrgReposUrl (GHES_URL cfg0) ''acme'' 2),
           calls = [OrgReposUrl (GHES_URL cfg0) ''acme'' 2], probes = []\<rparr>)"
proof -
  have h: "\<forall>i<3. net_down (length (requests world0) + i) (OrgReposUrl (GHES_URL cfg0) ''acme'' 2)
             = Raises Timeout
         \<or> net_down (length (requests world0) + i) (OrgReposUrl (GHES_URL cfg0) ''acme'' 2)
             = Raises ConnectionError"
    by (simp add: net_down_def)
  show ?thesis
    using h safe_request_three_failures [where cfg = cfg0 and net = net_down and w = world0
        and u = "OrgReposUrl (GHES_URL cfg0) ''acme'' 2", OF h]
    by (simp add: world0_def net_down_def numeral_3_eq_3)
qed

text \<open>
  C2: in \<open>get_repositories\<close> and \<open>get_branches\<close>, a successful response whose page is the
  empty list ends the loop with the accumulated list and no further call; a non-empty
  page (of branch objects with a name, for \<open>get_branches\<close>) is appended and the loop goes on
  with the page counter incremented by one, so that the next call of \<open>safe_request\<close> is for
  that page.
\<close>

theorem offset_paginator_page_step:
  "(\<forall>r w' items.
      safe_request net (OrgReposUrl (GHES_URL cfg) org page) w = (Inr (Some r), w')
        \<and> response_ok r \<and> json_of r = Inr (JList items) \<longrightarrow>
      (items = [] \<longrightarrow>
         get_repositories_loop cfg net org repos page w = Some (Inr repos, w')
         \<and> calls w' = calls w @ [OrgReposUrl (GHES_URL cfg) org page])
      \<and> (items \<noteq> [] \<longrightarrow>
         get_repositories_loop cfg net org repos page w =
           get_repositories_loop cfg net org (repos @ items) (page + 1) w'
         \<and> (\<forall>y. get_repositories_loop cfg net org repos page w = Some y \<longrightarrow>
               (\<exists>rest. calls (snd y) =
                  calls w @ OrgReposUrl (GHES_URL cfg) org page
                    # OrgReposUrl (GHES_URL cfg) org (page + 1) # rest))))
   \<and> (\<forall>r w' items names.
      safe_request net (BranchesUrl (GHES_URL cfg) (ORG_NAME cfg) rname page) w = (Inr (Some r), w')
        \<and> response_ok r \<and> json_of r = Inr (JList items)
        \<and> getitem_each ''name'' items = Inr names \<longrightarrow>
      (items = [] \<longrightarrow>
         get_branches_loop cfg net rname branches page w = Some (Inr branches, w')
         \<and> calls w' = calls w @ [BranchesUrl (GHES_URL cfg) (ORG_NAME cfg) rname page])
      \<and> (items \<noteq> [] \<longrightarrow>
         get_branches_loop cfg net rname branches page w =
           get_branches_loop cfg net rname (branches @ names) (page + 1) w'
         \<and> (\<forall>y. get_branches_loop cfg net rname branches page w = Some y \<longrightarrow>
               (\<exists>rest. calls (snd y) =
                  calls w @ BranchesUrl (GHES_URL cfg) (ORG_NAME cfg) rname page
                    # BranchesUrl (GHES_URL cfg) (ORG_NAME cfg) rname (page + 1) # rest))))"
proof (intro conjI allI impI; (elim conjE)?)
  fix r w' items
  assume sr: "safe_request net (OrgReposUrl (GHES_URL cfg) org page) w = (Inr (Some r), w')"
    and ok: "response_ok r" "json_of r = Inr (JList items)"
  {
    assume "items = []"
    with sr ok show "get_repositories_loop cfg net org repos page w = Some (Inr repos, w')"
      by (intro get_repositories_loop_empty [where r = r and data = "JList items"]) simp_all
    show "calls w' = calls w @ [OrgReposUrl (GHES_URL cfg) org page]"
      using safe_request_calls [of net "OrgReposUrl (GHES_URL cfg) org page" w] sr by simp
  }
  {
    assume ne: "items \<noteq> []"
    with sr ok show nxt: "get_repositories_loop cfg net org repos page w =
           get_repositories_loop cfg net org (repos @ items) (page + 1) w'"
      using get_repositories_loop_next [where r = r and data = "JList items" and items = items
          and net = net and cfg = cfg and org = org and page = page and w = w and w' = w'
          and repos = repos]
      by simp
    fix y assume "get_repositories_loop cfg net org repos page w = Some y"
    from get_repositories_loop_calls [OF this] obtain k where
      k: "calls (snd y) = calls w @ map (OrgReposUrl (GHES_URL cfg) org) [page..<page + Suc k]"
      by blast
    have "k \<noteq> 0"
    proof
      assume "k = 0"
      with k have c1: "calls (snd y) = calls w @ [OrgReposUrl (GHES_URL cfg) org page]" by simp
      from \<open>get_repositories_loop cfg net org repos page w = Some y\<close> nxt
      have "get_repositories_loop cfg net org (repos @ items) (Suc page) w' = Some y" by simp
      from get_repositories_loop_calls [OF this] obtain j where
        "calls (snd y) = calls w' @ map (OrgReposUrl (GHES_URL cfg) org) [Suc page..<Suc page + Suc j]"
        by blast
      moreover have "calls w' = calls w @ [OrgReposUrl (GHES_URL cfg) org page]"
        using safe_request_calls [of net "OrgReposUrl (GHES_URL cfg) org page" w] sr by simp
      ultimately have "length (calls (snd y)) = length (calls w) + 1 + Suc j" by simp
      with c1 show False by simp
    qed
    then obtain k' where "k = Suc k'" by (cases k) auto
    with k upt_two [of "OrgReposUrl (GHES_URL cfg) org" page k']
    show "\<exists>rest. calls (snd y) =
                  calls w @ OrgReposUrl (GHES_URL cfg) org page
                    # OrgReposUrl (GHES_URL cfg) org (page + 1) # rest"
      by auto
  }
next
  fix r w' items names
  assume sr: "safe_request net (BranchesUrl (GHES_URL cfg) (ORG_NAME cfg) rname page) w
                = (Inr (Some r), w')"
    and ok: "response_ok r" "json_of r = Inr (JList items)"
    and nm: "getitem_each ''name'' items = Inr names"
  let ?f = "BranchesUrl (GHES_URL cfg) (ORG_NAME cfg) rname"
  {
    assume "items = []"
    with sr ok show "get_branches_loop cfg net rname branches page w = Some (Inr branches, w')"
      by (intro get_branches_loop_empty [where r = r and data = "JList items"]) simp_all
    show "calls w' = calls w @ [?f page]"
      using safe_request_calls [of net "?f page" w] sr by simp
  }
  {
    assume ne: "items \<noteq> []"
    with sr ok nm show nxt: "get_branches_loop cfg net rname branches page w =
           get_branches_loop cfg net rname (branches @ names) (page + 1) w'"
      using get_branches_loop_next [where r = r and data = "JList items" and items = items
          and net = net and cfg = cfg and rname = rname and page = page and w = w and w' = w'
          and branches = branches and names = names]
      by simp
    fix y assume run: "get_branches_loop cfg net rname branches page w = Some y"
    from get_branches_loop_calls [OF this] obtain k where
      k: "calls (snd y) = calls w @ map ?f [page..<page + Suc k]"
      by blast
    have "k \<noteq> 0"
    proof
      assume "k = 0"
      with k have c1: "calls (snd y) = calls w @ [?f page]" by simp
      from run nxt
      have "get_branches_loop cfg net rname (branches @ names) (Suc page) w' = Some y" by simp
      from get_branches_loop_calls [OF this] obtain j where
        "calls (snd y) = calls w' @ map ?f [Suc page..<Suc page + Suc j]"
        by blast
      moreover have "calls w' = calls w @ [?f page]"
        using safe_request_calls [of net "?f page" w] sr by simp
      ultimately have "length (calls (snd y)) = length (calls w) + 1 + Suc j" by simp
      with c1 show False by simp
    qed
    then obtain k' where "k = Suc k'" by (cases k) auto
    with k upt_two [of ?f page k']
    show "\<exists>rest. calls (snd y) = calls w @ ?f page # ?f (page + 1) # rest"
      by auto
  }
qed

theorem offset_paginator_page_step_witness:
  "get_repositories_loop cfg0 net_one_page ''acme'' [] 1 world0 =
     get_repositories_loop cfg0 net_one_page ''acme'' [repo_alpha] 2
       \<lparr>requests = [OrgReposUrl (GHES_URL cfg0) ''acme'' 1],
        calls = [OrgReposUrl (GHES_URL cfg0) ''acme'' 1], probes = []\<rparr>
   \<and> get_repositories_loop cfg0 net_one_page ''acme'' [repo_alpha] 2
       \<lparr>requests = [OrgReposUrl (GHES_URL cfg0) ''acme'' 1],
        calls = [OrgReposUrl (GHES_URL cfg0) ''acme'' 1], probes = []\<rparr> =
     Some (Inr [repo_alpha],
       \<lparr>requests = [OrgReposUrl (GHES_URL cfg0) ''acme'' 1, OrgReposUrl (GHES_URL cfg0) ''acme'' 2],
        calls = [OrgReposUrl (GHES_URL cfg0) ''acme'' 1, OrgReposUrl (GHES_URL cfg0) ''acme'' 2],
        probes = []\<rparr>)"
proof -
  let ?u1 = "OrgReposUrl (GHES_URL cfg0) ''acme'' 1"
  let ?u2 = "OrgReposUrl (GHES_URL cfg0) ''acme'' 2"
  let ?w1 = "\<lparr>requests = [?u1], calls = [?u1], probes = []\<rparr>"
  let ?w2 = "\<lparr>requests = [?u1, ?u2], calls = [?u1, ?u2], probes = []\<rparr>"
  have s1: "safe_request net_one_page ?u1 world0 = (Inr (Some (page_response [repo_alpha])), ?w1)"
    using safe_request_success [of net_one_page world0 ?u1 "page_response [repo_alpha]"]
    by (simp add: net_one_page_def world0_def page_response_def)
  have s2: "safe_request net_one_page ?u2 ?w1 = (Inr (Some (page_response [])), ?w2)"
    using safe_request_success [of net_one_page ?w1 ?u2 "page_response []"]
    by (simp add: net_one_page_def page_response_def)
  have ok: "response_ok (page_response items)" "json_of (page_response items) = Inr (JList items)"
    for items
    by (simp_all add: response_ok_def raise_for_status_def page_response_def json_of_def)
  note first = offset_paginator_page_step [where net = net_one_page and cfg = cfg0
      and org = "''acme''" and page = 1 and w = world0 and repos = "[]",
      THEN conjunct1, THEN spec [where x = "page_response [repo_alpha]"],
      THEN spec [where x = ?w1], THEN spec [where x = "[repo_alpha]"]]
  note second = offset_paginator_page_step [where net = net_one_page and cfg = cfg0
      and org = "''acme''" and page = 2 and w = ?w1 and repos = "[repo_alpha]",
      THEN conjunct1, THEN spec [where x = "page_response []"],
      THEN spec [where x = ?w2], THEN spec [where x = "[]"]]
  from first s1 ok have "get_repositories_loop cfg0 net_one_page ''acme'' [] 1 world0 =
     get_repositories_loop cfg0 net_one_page ''acme'' [repo_alpha] 2 ?w1"
    by (simp add: numeral_2_eq_2)
  moreover from second s2 ok have "get_repositories_loop cfg0 net_one_page ''acme'' [repo_alpha] 2 ?w1
      = Some (Inr [repo_alpha], ?w2)"
    by (simp add: numeral_2_eq_2)
  ultimately show ?thesis by simp
qed

text \<open>
  C6: when \<open>safe_request\<close> returns \<open>None\<close> after some pages have been fetched, the paginator
  makes no further call and returns the accumulated items of the pages before: the
  repositories for \<open>get_repositories\<close>, the branch names for \<open>get_branches\<close>.
\<close>

theorem paginator_keeps_partial_results:
  "(pages_from net (OrgReposUrl (GHES_URL cfg) org) page ps w = Some wk
      \<and> safe_request net (OrgReposUrl (GHES_URL cfg) org (page + length ps)) wk = (Inr None, wz) \<longrightarrow>
      get_repositories_loop cfg net org repos page w = Some (Inr (repos @ concat ps), wz)
      \<and> calls wz = calls wk @ [OrgReposUrl (GHES_URL cfg) org (page + length ps)])
   \<and> (pages_from net (BranchesUrl (GHES_URL cfg) (ORG_NAME cfg) rname) page bps w = Some wk
      \<and> list_all2 (\<lambda>items names. getitem_each ''name'' items = Inr names) bps nss
      \<and> safe_request net (BranchesUrl (GHES_URL cfg) (ORG_NAME cfg) rname (page + length bps)) wk
          = (Inr None, wz) \<longrightarrow>
      get_branches_loop cfg net rname branches page w = Some (Inr (branches @ concat nss), wz)
      \<and> calls wz = calls wk
           @ [BranchesUrl (GHES_URL cfg) (ORG_NAME cfg) rname (page + length bps)])"
proof (intro conjI impI; (elim conjE)?)
  assume pf: "pages_from net (OrgReposUrl (GHES_URL cfg) org) page ps w = Some wk"
    and sr: "safe_request net (OrgReposUrl (GHES_URL cfg) org (page + length ps)) wk = (Inr None, wz)"
  have "get_repositories_loop cfg net org repos page w =
          get_repositories_loop cfg net org (repos @ concat ps) (page + length ps) wk"
    using pf by (rule get_repositories_loop_pages)
  also have "\<dots> = Some (Inr (repos @ concat ps), wz)"
    using sr by (intro get_repositories_loop_stop [where response = None]) simp_all
  finally show "get_repositories_loop cfg net org repos page w = Some (Inr (repos @ concat ps), wz)" .
  show "calls wz = calls wk @ [OrgReposUrl (GHES_URL cfg) org (page + length ps)]"
    using safe_request_calls [of net "OrgReposUrl (GHES_URL cfg) org (page + length ps)" wk] sr
    by simp
next
  let ?f = "BranchesUrl (GHES_URL cfg) (ORG_NAME cfg) rname"
  assume pf: "pages_from net ?f page bps w = Some wk"
    and nm: "list_all2 (\<lambda>items names. getitem_each ''name'' items = Inr names) bps nss"
    and sr: "safe_request net (?f (page + length bps)) wk = (Inr None, wz)"
  have "get_branches_loop cfg net rname branches page w =
          get_branches_loop cfg net rname (branches @ concat nss) (page + length bps) wk"
    using pf nm by (rule get_branches_loop_pages)
  also have "\<dots> = Some (Inr (branches @ concat nss), wz)"
    using sr by (intro get_branches_loop_stop [where response = None]) simp_all
  finally show "get_branches_loop cfg net rname branches page w
                  = Some (Inr (branches @ concat nss), wz)" .
  show "calls wz = calls wk @ [?f (page + length bps)]"
    using safe_request_calls [of net "?f (page + length bps)" wk] sr by simp
qed

theorem paginator_keeps_partial_results_witness:
  "get_repositories cfg0 net_page_then_down ''acme'' world0 =
     Some (Inr [repo_alpha],
       \<lparr>requests = OrgReposUrl (GHES_URL cfg0) ''acme'' 1
                     # replicate 3 (OrgReposUrl (GHES_URL cfg0) ''acme'' 2),
        calls = [OrgReposUrl (GHES_URL cfg0) ''acme'' 1, OrgReposUrl (GHES_URL cfg0) ''acme'' 2],
        probes = []\<rparr>)"
proof -
  let ?u1 = "OrgReposUrl (GHES_URL cfg0) ''acme'' 1"
  let ?u2 = "OrgReposUrl (GHES_URL cfg0) ''acme'' 2"
  let ?w1 = "\<lparr>requests = [?u1], calls = [?u1], probes = []\<rparr>"
  let ?wz = "\<lparr>requests = ?u1 # replicate 3 ?u2, calls = [?u1, ?u2], probes = []\<rparr>"
  have s1: "safe_request net_page_then_down ?u1 world0
              = (Inr (Some (page_response [repo_alpha])), ?w1)"
    using safe_request_success [of net_page_then_down world0 ?u1 "page_response [repo_alpha]"]
    by (simp add: net_page_then_down_def world0_def page_response_def)
  have s2: "safe_request net_page_then_down ?u2 ?w1 = (Inr None, ?wz)"
    using three_failures_exhaust [of net_page_then_down ?w1 ?u2]
    by (simp add: net_page_then_down_def numeral_3_eq_3)
  have pf: "pages_from net_page_then_down (OrgReposUrl (GHES_URL cfg0) ''acme'') 1 [[repo_alpha]] world0
              = Some ?w1"
    using s1 by (simp add: response_ok_def raise_for_status_def page_response_def json_of_def)
  from paginator_keeps_partial_results [where net = net_page_then_down and cfg = cfg0
      and org = "''acme''" and page = 1 and ps = "[[repo_alpha]]" and w = world0 and wk = ?w1
      and wz = ?wz and repos = "[]", THEN conjunct1] pf s2
  show ?thesis by (simp add: get_repositories_def numeral_2_eq_2)
qed

text \<open>
  C10: when the network only answers with responses or request-level exceptions,
  \<open>safe_request\<close> raises nothing and sends between one and three requests; and three
  responses with an HTTP error status other than 404 are each caught and retried, after
  which the result is \<open>None\<close>.
\<close>

theorem safe_request_never_raises:
  assumes "\<forall>i e. net i u = Raises e \<longrightarrow> caught_by_safe_request e"
  shows "(\<exists>r. fst (safe_request net u w) = Inr r)
       \<and> (\<exists>k. 1 \<le> k \<and> k \<le> 3 \<and>
             requests (snd (safe_request net u w)) = requests w @ replicate k u)
       \<and> ((\<forall>i<3. \<exists>r. net (length (requests w) + i) u = Returns r
                \<and> 400 \<le> status_code r \<and> status_code r < 600 \<and> status_code r \<noteq> 404) \<longrightarrow>
           safe_request net u w =
             (Inr None, w\<lparr>requests := requests w @ [u, u, u], calls := calls w @ [u]\<rparr>))"
proof (intro conjI impI)
  show "\<exists>r. fst (safe_request net u w) = Inr r"
    unfolding safe_request_def
    using assms by (rule attempts_total [where net = net and u = u])
next
  obtain res w' where a: "attempt net u (w\<lparr>calls := calls w @ [u]\<rparr>) = (res, w')"
    by (cases "attempt net u (w\<lparr>calls := calls w @ [u]\<rparr>)")
  with attempt_world [of net u "w\<lparr>calls := calls w @ [u]\<rparr>"]
  have w': "requests w' = requests w @ [u]" by simp
  from attempts_requests [of 2 net u w'] obtain j where
    j: "j \<le> 2" "requests (snd (attempts net u 2 w')) = requests w' @ replicate j u" by blast
  show "\<exists>k. 1 \<le> k \<and> k \<le> 3 \<and>
             requests (snd (safe_request net u w)) = requests w @ replicate k u"
  proof (cases "\<exists>e. res = Inl e \<and> caught_by_safe_request e")
    case True
    then have "snd (safe_request net u w) = snd (attempts net u 2 w')"
      using a by (auto simp add: safe_request_def numeral_3_eq_3 numeral_2_eq_2)
    with j w' have "requests (snd (safe_request net u w)) = requests w @ replicate (Suc j) u"
      by (simp add: replicate_app_Cons_same)
    moreover have "1 \<le> Suc j" "Suc j \<le> 3" using j(1) by simp_all
    ultimately show ?thesis by blast
  next
    case False
    then have "snd (safe_request net u w) = w'"
      using a by (auto simp add: safe_request_def numeral_3_eq_3 split: sum.splits)
    with w' have "requests (snd (safe_request net u w)) = requests w @ replicate 1 u" by simp
    then show ?thesis by (metis le_refl one_le_numeral)
  qed
next
  assume "\<forall>i<3. \<exists>r. net (length (requests w) + i) u = Returns r
                \<and> 400 \<le> status_code r \<and> status_code r < 600 \<and> status_code r \<noteq> 404"
  then show "safe_request net u w =
             (Inr None, w\<lparr>requests := requests w @ [u, u, u], calls := calls w @ [u]\<rparr>)"
    by (rule three_http_errors_exhaust)
qed

theorem safe_request_never_raises_witness:
  "safe_request net_forbidden (OrgReposUrl (GHES_URL cfg0) ''acme'' 1) world0
     = (Inr None,
        \<lparr>requests = replicate 3 (OrgReposUrl (GHES_URL cfg0) ''acme'' 1),
         calls = [OrgReposUrl (GHES_URL cfg0) ''acme'' 1], probes = []\<rparr>)"
proof -
  have h: "\<forall>i e. net_forbidden i (OrgReposUrl (GHES_URL cfg0) ''acme'' 1) = Raises e
             \<longrightarrow> caught_by_safe_request e"
    by (simp add: net_forbidden_def)
  have h2: "\<forall>i<3. \<exists>r. net_forbidden (length (requests world0) + i)
                (OrgReposUrl (GHES_URL cfg0) ''acme'' 1) = Returns r
                \<and> 400 \<le> status_code r \<and> status_code r < 600 \<and> status_code r \<noteq> 404"
    by (simp add: net_forbidden_def)
  show ?thesis
    using h2 safe_request_never_raises [where net = net_forbidden and w = world0
        and u = "OrgReposUrl (GHES_URL cfg0) ''acme'' 1", OF h]
    by (simp add: world0_def numeral_3_eq_3)
qed

text \<open>
  C7: a 404 answer to the first attempt is returned by \<open>safe_request\<close> at once, after
  exactly one request; \<open>check_lfs_usage\<close> then returns \<open>False\<close> and raises nothing.
\<close>

theorem not_found_is_returned_without_retry:
  assumes "net (length (requests w)) u = Returns r" and "status_code r = 404"
  shows "safe_request net u w =
           (Inr (Some r), w\<lparr>requests := requests w @ [u], calls := calls w @ [u]\<rparr>)
       \<and> (\<forall>rname bname.
            u = GitattributesUrl (GHES_URL cfg) (ORG_NAME cfg) rname bname \<longrightarrow>
            check_lfs_usage cfg cd net rname bname w =
              (Inr False, w\<lparr>requests := requests w @ [u], calls := calls w @ [u],
                             probes := probes w @ [(rname, bname, False)]\<rparr>))"
proof -
  have sr: "safe_request net u w =
           (Inr (Some r), w\<lparr>requests := requests w @ [u], calls := calls w @ [u]\<rparr>)"
    using assms by (rule safe_request_404)
  have "\<not> response_truthy (Some r)"
    using assms(2) by (simp add: response_ok_def raise_for_status_def)
  then have "\<forall>rname bname.
            u = GitattributesUrl (GHES_URL cfg) (ORG_NAME cfg) rname bname \<longrightarrow>
            check_lfs_usage cfg cd net rname bname w =
              (Inr False, w\<lparr>requests := requests w @ [u], calls := calls w @ [u],
                             probes := probes w @ [(rname, bname, False)]\<rparr>)"
    using sr check_lfs_usage_falsy [where net = net and cfg = cfg and w = w and cd = cd
        and response = "Some r"
        and w' = "w\<lparr>requests := requests w @ [u], calls := calls w @ [u]\<rparr>"]
    by auto
  with sr show ?thesis by simp
qed

theorem not_found_is_returned_without_retry_witness:
  "check_lfs_usage cfg0 codec_plain net_not_found (JStr ''repo'') (JStr ''main'') world0 =
     (Inr False,
      \<lparr>requests = [GitattributesUrl (GHES_URL cfg0) (ORG_NAME cfg0) (JStr ''repo'') (JStr ''main'')],
       calls = [GitattributesUrl (GHES_URL cfg0) (ORG_NAME cfg0) (JStr ''repo'') (JStr ''main'')],
       probes = [(JStr ''repo'', JStr ''main'', False)]\<rparr>)"
proof -
  have h: "net_not_found (length (requests world0))
             (GitattributesUrl (GHES_URL cfg0) (ORG_NAME cfg0) (JStr ''repo'') (JStr ''main''))
           = Returns \<lparr>status_code = 404, json_body = Some (JDict [(''message'', JStr ''Not Found'')]),
               x_ratelimit_remaining = Absent, x_ratelimit_reset = Absent\<rparr>"
    by (simp add: net_not_found_def)
  show ?thesis
    using not_found_is_returned_without_retry [where cfg = cfg0 and cd = codec_plain
        and net = net_not_found and w = world0
        and u = "GitattributesUrl (GHES_URL cfg0) (ORG_NAME cfg0) (JStr ''repo'') (JStr ''main'')",
        OF h]
    by (simp add: world0_def)
qed

text \<open>
  C3: the inner loop of \<open>main\<close> probes the branches in the order of the list: the verdict
  is "No" when every branch was probed and every probe returned false, and "Yes" when the
  probes of a front part of the list returned false and the next one returned true, after
  which no branch is probed. A probe returns true exactly when the response is a 200
  whose decoded content contains \<open>filter=lfs\<close>. The list that \<open>main\<close> scans is the one
  returned by \<open>get_branches\<close>, and the verdict is the third field of the row.
\<close>

theorem lfs_audit_short_circuit_or:
  "(case scan_branches cfg cd net rname bs w of
      (Inr verdict, w') \<Rightarrow>
        (verdict = ''No'' \<and> probes w' = probes w @ map (\<lambda>b. (rname, b, False)) bs)
        \<or> (verdict = ''Yes'' \<and>
            (\<exists>pre b post. bs = pre @ b # post \<and>
               probes w' = probes w @ map (\<lambda>b. (rname, b, False)) pre @ [(rname, b, True)]))
    | (Inl e, w') \<Rightarrow>
        (\<exists>pre b post. bs = pre @ b # post \<and>
           probes w' = probes w @ map (\<lambda>b. (rname, b, False)) pre))
   \<and> (\<forall>bname w0.
        case check_lfs_usage cfg cd net rname bname w0 of
          (Inr found, w1) \<Rightarrow>
            probes w1 = probes w0 @ [(rname, bname, found)]
            \<and> (found \<longleftrightarrow>
                 (\<exists>r d s raw txt.
                    fst (safe_request net
                           (GitattributesUrl (GHES_URL cfg) (ORG_NAME cfg) rname bname) w0)
                      = Inr (Some r)
                    \<and> status_code r = 200 \<and> json_body r = Some (JDict d)
                    \<and> (case map_of d ''content'' of None \<Rightarrow> JStr [] | Some v \<Rightarrow> v) = JStr s
                    \<and> b64decode cd s = Some raw \<and> utf8_decode cd raw = Some txt
                    \<and> str_contains ''filter=lfs'' txt))
        | (Inl e, w1) \<Rightarrow> probes w1 = probes w0)
   \<and> (\<forall>row w2. audit_repo cfg cd net repo w = Some (Inr row, w2) \<longrightarrow>
        (\<exists>rn branches w1.
           getitem repo ''name'' = Inr rn
           \<and> get_branches cfg net rn w = Some (Inr branches, w1)
           \<and> scan_branches cfg cd net rn branches w1 = (Inr (using_lfs row), w2)
           \<and> repository row = rn
           \<and> py_join '', '' branches = Inr (branches_joined row)))"
proof (intro conjI allI impI)
  obtain res w' where s: "scan_branches cfg cd net rname bs w = (res, w')"
    by (cases "scan_branches cfg cd net rname bs w")
  from scan_branches_probes [OF s]
  show "case scan_branches cfg cd net rname bs w of
      (Inr verdict, w') \<Rightarrow>
        (verdict = ''No'' \<and> probes w' = probes w @ map (\<lambda>b. (rname, b, False)) bs)
        \<or> (verdict = ''Yes'' \<and>
            (\<exists>pre b post. bs = pre @ b # post \<and>
               probes w' = probes w @ map (\<lambda>b. (rname, b, False)) pre @ [(rname, b, True)]))
    | (Inl e, w') \<Rightarrow>
        (\<exists>pre b post. bs = pre @ b # post \<and>
           probes w' = probes w @ map (\<lambda>b. (rname, b, False)) pre)"
    using s by (cases res) simp_all
next
  fix bname w0
  let ?u = "GitattributesUrl (GHES_URL cfg) (ORG_NAME cfg) rname bname"
  obtain res w1 where c: "check_lfs_usage cfg cd net rname bname w0 = (res, w1)"
    by (cases "check_lfs_usage cfg cd net rname bname w0")
  note p = check_lfs_usage_probes [OF c]
  show "case check_lfs_usage cfg cd net rname bname w0 of
          (Inr found, w1) \<Rightarrow>
            probes w1 = probes w0 @ [(rname, bname, found)]
            \<and> (found \<longleftrightarrow>
                 (\<exists>r d s raw txt.
                    fst (safe_request net ?u w0) = Inr (Some r)
                    \<and> status_code r = 200 \<and> json_body r = Some (JDict d)
                    \<and> (case map_of d ''content'' of None \<Rightarrow> JStr [] | Some v \<Rightarrow> v) = JStr s
                    \<and> b64decode cd s = Some raw \<and> utf8_decode cd raw = Some txt
                    \<and> str_contains ''filter=lfs'' txt))
        | (Inl e, w1) \<Rightarrow> probes w1 = probes w0"
  proof (cases res)
    case (Inl e)
    with c p show ?thesis by simp
  next
    case (Inr found)
    obtain resp ws where sr: "safe_request net ?u w0 = (Inr resp, ws)"
      using c Inr by (auto simp add: check_lfs_usage_def split: prod.splits sum.splits)
    then have f: "found = lfs_verdict cd resp"
      using c Inr by (simp add: check_lfs_usage_def)
    have "found \<longleftrightarrow>
                 (\<exists>r d s raw txt.
                    fst (safe_request net ?u w0) = Inr (Some r)
                    \<and> status_code r = 200 \<and> json_body r = Some (JDict d)
                    \<and> (case map_of d ''content'' of None \<Rightarrow> JStr [] | Some v \<Rightarrow> v) = JStr s
                    \<and> b64decode cd s = Some raw \<and> utf8_decode cd raw = Some txt
                    \<and> str_contains ''filter=lfs'' txt)"
      unfolding f lfs_verdict_iff marker_in_content_iff using sr by auto
    with c p Inr show ?thesis by simp
  qed
next
  fix row w2
  assume "audit_repo cfg cd net repo w = Some (Inr row, w2)"
  then show "\<exists>rn branches w1.
           getitem repo ''name'' = Inr rn
           \<and> get_branches cfg net rn w = Some (Inr branches, w1)
           \<and> scan_branches cfg cd net rn branches w1 = (Inr (using_lfs row), w2)
           \<and> repository row = rn
           \<and> py_join '', '' branches = Inr (branches_joined row)"
    by (rule audit_repo_row)
qed

theorem lfs_audit_short_circuit_or_witness:
  "audit_repo cfg0 codec_plain net_lfs repo_alpha world0 =
     Some (Inr \<lparr>repository = JStr ''alpha'', branches_joined = ''main, dev'', using_lfs = ''Yes''\<rparr>,
       \<lparr>requests = [BranchesUrl (GHES_URL cfg0) (ORG_NAME cfg0) (JStr ''alpha'') 1,
                    BranchesUrl (GHES_URL cfg0) (ORG_NAME cfg0) (JStr ''alpha'') 2,
                    GitattributesUrl (GHES_URL cfg0) (ORG_NAME cfg0) (JStr ''alpha'') (JStr ''main''),
                    GitattributesUrl (GHES_URL cfg0) (ORG_NAME cfg0) (JStr ''alpha'') (JStr ''dev'')],
        calls = [BranchesUrl (GHES_URL cfg0) (ORG_NAME cfg0) (JStr ''alpha'') 1,
                 BranchesUrl (GHES_URL cfg0) (ORG_NAME cfg0) (JStr ''alpha'') 2,
                 GitattributesUrl (GHES_URL cfg0) (ORG_NAME cfg0) (JStr ''alpha'') (JStr ''main''),
                 GitattributesUrl (GHES_URL cfg0) (ORG_NAME cfg0) (JStr ''alpha'') (JStr ''dev'')],
        probes = [(JStr ''alpha'', JStr ''main'', False), (JStr ''alpha'', JStr ''dev'', True)]\<rparr>)
   \<and> (\<exists>branches w1.
         get_branches cfg0 net_lfs (JStr ''alpha'') world0 = Some (Inr branches, w1)
         \<and> fst (scan_branches cfg0 codec_plain net_lfs (JStr ''alpha'') branches w1) = Inr ''Yes'')"
proof -
  note run = audit_alpha_run
  from lfs_audit_short_circuit_or [where cfg = cfg0 and cd = codec_plain and net = net_lfs
      and repo = repo_alpha and w = world0, THEN conjunct2, THEN conjunct2, rule_format, OF run]
  obtain rn branches w1 where
    "getitem repo_alpha ''name'' = Inr rn"
    "get_branches cfg0 net_lfs rn world0 = Some (Inr branches, w1)"
    "fst (scan_branches cfg0 codec_plain net_lfs rn branches w1) = Inr ''Yes''"
    by auto
  moreover from this(1) have "rn = JStr ''alpha''" by (simp add: repo_alpha_def)
  ultimately show ?thesis using run by blast
qed

text \<open>
  C9: when the language list of a node is a JSON list of objects with a string name, the
  \<open>languages\<close> field is "N/A" for the empty list and otherwise the names in their order
  of arrival, each but the first preceded by a comma and a space.
\<close>

theorem languages_field_joined:
  assumes "get_path repo [''languages'', ''nodes''] = Inr (JList langs)"
    and "list_all2 (\<lambda>lang name. getitem lang ''name'' = Inr (JStr name)) langs names"
  shows "languages_of repo =
           Inr (if names = [] then ''N/A''
                else hd names @ concat (map (\<lambda>name. '', '' @ name) (tl names)))
       \<and> (\<forall>row. normalize_repo repo = Inr row \<longrightarrow>
            languages row =
              (if names = [] then ''N/A''
               else hd names @ concat (map (\<lambda>name. '', '' @ name) (tl names))))"
proof -
  have j: "names \<noteq> [] \<Longrightarrow>
      intersperse_str '', '' names = hd names @ concat (map (\<lambda>name. '', '' @ name) (tl names))"
    using intersperse_str_concat [of "'', ''" "hd names" "tl names"] by simp
  have l: "languages_of repo =
           Inr (if names = [] then ''N/A''
                else hd names @ concat (map (\<lambda>name. '', '' @ name) (tl names)))"
  proof (cases "names = []")
    case True
    with languages_of_names [OF assms] show ?thesis by simp
  next
    case False
    from languages_of_names [OF assms] j [OF False] False show ?thesis
      by (simp only: if_False)
  qed
  moreover have "languages row =
              (if names = [] then ''N/A''
               else hd names @ concat (map (\<lambda>name. '', '' @ name) (tl names)))"
    if "normalize_repo repo = Inr row" for row
    using normalize_repo_fields(1) [OF that] l by simp
  ultimately show ?thesis by blast
qed

theorem languages_field_joined_witness:
  "languages_of (repo_node ''alpha'' (JInt 2048) (commits_ref 10) (count_of 3) [''Python'', ''Shell''])
     = Inr ''Python, Shell''
   \<and> languages_of (repo_node ''beta'' (JInt 2048) (commits_ref 10) (count_of 3) []) = Inr ''N/A''"
proof -
  have p: "get_path (repo_node n d r b ls) [''languages'', ''nodes'']
             = Inr (JList (map (\<lambda>l. JDict [(''name'', JStr l)]) ls))" for n d r b ls
    by (simp add: repo_node_def and_then_def)
  have q: "list_all2 (\<lambda>lang name. getitem lang ''name'' = Inr (JStr name))
             (map (\<lambda>l. JDict [(''name'', JStr l)]) ls) ls" for ls
    by (induction ls) simp_all
  from languages_field_joined [OF p q, of "''alpha''" "JInt 2048" "commits_ref 10" "count_of 3"
      "[''Python'', ''Shell'']"]
    languages_field_joined [OF p q, of "''beta''" "JInt 2048" "commits_ref 10" "count_of 3" "[]"]
  show ?thesis by simp
qed

text \<open>
  C4, as the code has it. Two numeric fields have a default: for a node whose
  \<open>defaultBranchRef\<close> is null the commit count is 0, reading it raises nothing, and the
  node is normalized whenever its other fields can be read; for a node whose \<open>diskUsage\<close>
  is null the size is 0. Each of the other eight counts is the \<open>totalCount\<close> of its
  sub-object: a node in which one of these sub-objects is null, or has no \<open>totalCount\<close>
  to read, raises and yields no row.
\<close>

theorem guarded_fields_default_to_zero:
  "(getitem repo ''defaultBranchRef'' = Inr JNull \<longrightarrow>
      total_commits_of repo = Inr (JInt 0)
      \<and> (\<forall>row. normalize_repo repo = Inr row \<longrightarrow> total_commits row = JInt 0)
      \<and> (languages_of repo = Inr langs \<and> getitem repo ''name'' = Inr name
            \<and> repo_size_mb_of repo = Inr size_mb \<and> getitem repo ''visibility'' = Inr vis
            \<and> get_path repo [''branches'', ''totalCount''] = Inr c1
            \<and> get_path repo [''pullRequests'', ''totalCount''] = Inr c2
            \<and> get_path repo [''mergedPRs'', ''totalCount''] = Inr c3
            \<and> get_path repo [''closedPRs'', ''totalCount''] = Inr c4
            \<and> get_path repo [''issues'', ''totalCount''] = Inr c5
            \<and> get_path repo [''closedIssues'', ''totalCount''] = Inr c6
            \<and> get_path repo [''releases'', ''totalCount''] = Inr c7
            \<and> get_path repo [''tags'', ''totalCount''] = Inr c8
            \<and> getitem repo ''pushedAt'' = Inr pushed \<and> getitem repo ''updatedAt'' = Inr updated
          \<longrightarrow> normalize_repo repo =
                Inr \<lparr>repo_name = name, repo_size_mb = size_mb, visibility = vis,
                     total_commits = JInt 0, total_branches = c1, open_prs = c2,
                     merged_prs = c3, closed_prs = c4, open_issues = c5,
                     closed_issues = c6, releases = c7, tags = c8,
                     languages = langs, last_pushed_at = pushed,
                     last_updated_at = updated\<rparr>))
   \<and> (getitem repo ''diskUsage'' = Inr JNull \<longrightarrow>
        repo_size_mb_of repo = Inr 0
        \<and> (\<forall>row. normalize_repo repo = Inr row \<longrightarrow> repo_size_mb row = 0))
   \<and> (\<forall>row. normalize_repo repo = Inr row \<longrightarrow>
        get_path repo [''branches'', ''totalCount''] = Inr (total_branches row)
        \<and> get_path repo [''pullRequests'', ''totalCount''] = Inr (open_prs row)
        \<and> get_path repo [''mergedPRs'', ''totalCount''] = Inr (merged_prs row)
        \<and> get_path repo [''closedPRs'', ''totalCount''] = Inr (closed_prs row)
        \<and> get_path repo [''issues'', ''totalCount''] = Inr (open_issues row)
        \<and> get_path repo [''closedIssues'', ''totalCount''] = Inr (closed_issues row)
        \<and> get_path repo [''releases'', ''totalCount''] = Inr (releases row)
        \<and> get_path repo [''tags'', ''totalCount''] = Inr (tags row))
   \<and> (\<forall>k. k \<in> set count_keys \<and> (\<forall>v. get_path repo [k, ''totalCount''] \<noteq> Inr v) \<longrightarrow>
        (\<exists>e. normalize_repo repo = Inl e))
   \<and> (\<forall>k. k \<in> set count_keys \<and> getitem repo k = Inr JNull \<longrightarrow>
        (\<exists>e. normalize_repo repo = Inl e))"
proof -
  have no_count: "\<exists>e. normalize_repo repo = Inl e"
    if "k \<in> set count_keys" "\<forall>v. get_path repo [k, ''totalCount''] \<noteq> Inr v" for k
  proof (cases "normalize_repo repo")
    case (Inl e)
    then show ?thesis by blast
  next
    case (Inr row)
    from normalize_repo_count_paths [OF Inr that(1)] that(2) show ?thesis by blast
  qed
  have a: "total_commits_of repo = Inr (JInt 0)"
    if "getitem repo ''defaultBranchRef'' = Inr JNull"
    using that by (simp add: total_commits_of_def and_then_def)
  have b: "repo_size_mb_of repo = Inr 0" if "getitem repo ''diskUsage'' = Inr JNull"
    using that by (simp add: repo_size_mb_of_def and_then_def round2_div_1024_def)
  show ?thesis
  proof (intro conjI allI impI; (elim conjE)?)
    assume "getitem repo ''defaultBranchRef'' = Inr JNull"
    then show "total_commits_of repo = Inr (JInt 0)" by (rule a)
  next
    fix row
    assume "getitem repo ''defaultBranchRef'' = Inr JNull" "normalize_repo repo = Inr row"
    with a normalize_repo_reads [of repo row] show "total_commits row = JInt 0" by simp
  next
    assume d: "getitem repo ''defaultBranchRef'' = Inr JNull"
      and "languages_of repo = Inr langs" "getitem repo ''name'' = Inr name"
      "repo_size_mb_of repo = Inr size_mb" "getitem repo ''visibility'' = Inr vis"
      "get_path repo [''branches'', ''totalCount''] = Inr c1"
      "get_path repo [''pullRequests'', ''totalCount''] = Inr c2"
      "get_path repo [''mergedPRs'', ''totalCount''] = Inr c3"
      "get_path repo [''closedPRs'', ''totalCount''] = Inr c4"
      "get_path repo [''issues'', ''totalCount''] = Inr c5"
      "get_path repo [''closedIssues'', ''totalCount''] = Inr c6"
      "get_path repo [''releases'', ''totalCount''] = Inr c7"
      "get_path repo [''tags'', ''totalCount''] = Inr c8"
      "getitem repo ''pushedAt'' = Inr pushed" "getitem repo ''updatedAt'' = Inr updated"
    then show "normalize_repo repo =
                Inr \<lparr>repo_name = name, repo_size_mb = size_mb, visibility = vis,
                     total_commits = JInt 0, total_branches = c1, open_prs = c2,
                     merged_prs = c3, closed_prs = c4, open_issues = c5,
                     closed_issues = c6, releases = c7, tags = c8,
                     languages = langs, last_pushed_at = pushed,
                     last_updated_at = updated\<rparr>"
      using a [OF d] by (intro normalize_repo_success)
  next
    assume "getitem repo ''diskUsage'' = Inr JNull"
    then show "repo_size_mb_of repo = Inr 0" by (rule b)
  next
    fix row
    assume "getitem repo ''diskUsage'' = Inr JNull" "normalize_repo repo = Inr row"
    with b normalize_repo_reads [of repo row] show "repo_size_mb row = 0" by simp
  next
    fix row assume r: "normalize_repo repo = Inr row"
    note reads = normalize_repo_reads [OF r]
    from reads show "get_path repo [''branches'', ''totalCount''] = Inr (total_branches row)"
      by blast
    from reads show "get_path repo [''pullRequests'', ''totalCount''] = Inr (open_prs row)"
      by blast
    from reads show "get_path repo [''mergedPRs'', ''totalCount''] = Inr (merged_prs row)"
      by blast
    from reads show "get_path repo [''closedPRs'', ''totalCount''] = Inr (closed_prs row)"
      by blast
    from reads show "get_path repo [''issues'', ''totalCount''] = Inr (open_issues row)"
      by blast
    from reads show "get_path repo [''closedIssues'', ''totalCount''] = Inr (closed_issues row)"
      by blast
    from reads show "get_path repo [''releases'', ''totalCount''] = Inr (releases row)"
      by blast
    from reads show "get_path repo [''tags'', ''totalCount''] = Inr (tags row)"
      by blast
  next
    fix k assume "k \<in> set count_keys" "\<forall>v. get_path repo [k, ''totalCount''] \<noteq> Inr v"
    then show "\<exists>e. normalize_repo repo = Inl e" by (rule no_count)
  next
    fix k assume k: "k \<in> set count_keys" and "getitem repo k = Inr JNull"
    then have "get_path repo [k, ''totalCount''] = Inl TypeError" by (intro null_has_no_count)
    then have "\<forall>v. get_path repo [k, ''totalCount''] \<noteq> Inr v" by simp
    with k show "\<exists>e. normalize_repo repo = Inl e" by (rule no_count)
  qed
qed

theorem guarded_fields_default_to_zero_witness:
  "getitem (repo_node ''empty'' JNull JNull (count_of 0) []) ''defaultBranchRef'' = Inr JNull
   \<and> getitem (repo_node ''empty'' JNull JNull (count_of 0) []) ''diskUsage'' = Inr JNull
   \<and> normalize_repo (repo_node ''empty'' JNull JNull (count_of 0) []) =
       Inr \<lparr>repo_name = JStr ''empty'', repo_size_mb = 0, visibility = JStr ''PRIVATE'',
            total_commits = JInt 0, total_branches = JInt 0, open_prs = JInt 1,
            merged_prs = JInt 2, closed_prs = JInt 3, open_issues = JInt 4,
            closed_issues = JInt 5, releases = JInt 6, tags = JInt 7,
            languages = ''N/A'', last_pushed_at = JStr ''2024-01-01T00:00:00Z'',
            last_updated_at = JStr ''2024-01-02T00:00:00Z''\<rparr>
   \<and> ''releases'' \<in> set count_keys
   \<and> getitem (repo_node ''alpha'' (JInt 2048) (commits_ref 10) JNull [''Python'']) ''branches''
       = Inr JNull
   \<and> (\<exists>e. normalize_repo (repo_node ''alpha'' (JInt 2048) (commits_ref 10) JNull [''Python''])
             = Inl e)"
proof -
  let ?node = "repo_node ''empty'' JNull JNull (count_of 0) []"
  let ?bad = "repo_node ''alpha'' (JInt 2048) (commits_ref 10) JNull [''Python'']"
  have h: "getitem ?node ''defaultBranchRef'' = Inr JNull"
    and h2: "getitem ?node ''diskUsage'' = Inr JNull"
    by (simp_all add: repo_node_def)
  have others: "languages_of ?node = Inr ''N/A'' \<and> getitem ?node ''name'' = Inr (JStr ''empty'')
      \<and> repo_size_mb_of ?node = Inr 0 \<and> getitem ?node ''visibility'' = Inr (JStr ''PRIVATE'')
      \<and> get_path ?node [''branches'', ''totalCount''] = Inr (JInt 0)
      \<and> get_path ?node [''pullRequests'', ''totalCount''] = Inr (JInt 1)
      \<and> get_path ?node [''mergedPRs'', ''totalCount''] = Inr (JInt 2)
      \<and> get_path ?node [''closedPRs'', ''totalCount''] = Inr (JInt 3)
      \<and> get_path ?node [''issues'', ''totalCount''] = Inr (JInt 4)
      \<and> get_path ?node [''closedIssues'', ''totalCount''] = Inr (JInt 5)
      \<and> get_path ?node [''releases'', ''totalCount''] = Inr (JInt 6)
      \<and> get_path ?node [''tags'', ''totalCount''] = Inr (JInt 7)
      \<and> getitem ?node ''pushedAt'' = Inr (JStr ''2024-01-01T00:00:00Z'')
      \<and> getitem ?node ''updatedAt'' = Inr (JStr ''2024-01-02T00:00:00Z'')"
    by (simp add: repo_node_def count_of_def and_then_def languages_of_def
        repo_size_mb_of_def round2_div_1024_def)
  have k: "''branches'' \<in> set count_keys" "''releases'' \<in> set count_keys"
    by (simp_all add: count_keys_def)
  have nb: "getitem ?bad ''branches'' = Inr JNull" by (simp add: repo_node_def)
  from guarded_fields_default_to_zero [where repo = ?node, THEN conjunct1, rule_format, OF h,
      THEN conjunct2, THEN conjunct2, rule_format, OF others]
  have row: "normalize_repo ?node =
       Inr \<lparr>repo_name = JStr ''empty'', repo_size_mb = 0, visibility = JStr ''PRIVATE'',
            total_commits = JInt 0, total_branches = JInt 0, open_prs = JInt 1,
            merged_prs = JInt 2, closed_prs = JInt 3, open_issues = JInt 4,
            closed_issues = JInt 5, releases = JInt 6, tags = JInt 7,
            languages = ''N/A'', last_pushed_at = JStr ''2024-01-01T00:00:00Z'',
            last_updated_at = JStr ''2024-01-02T00:00:00Z''\<rparr>" .
  from guarded_fields_default_to_zero [where repo = ?bad, THEN conjunct2, THEN conjunct2,
      THEN conjunct2, THEN conjunct2, rule_format, of "''branches''"] k(1) nb
  have "\<exists>e. normalize_repo ?bad = Inl e" by blast
  with h h2 row k(2) nb show ?thesis by blast
qed

text \<open>
  A node whose \<open>branches\<close> object is null, everything else in place: the normalizer raises
  TypeError and yields no row, instead of a branch count of 0.
\<close>

theorem null_branches_raise:
  "normalize_repo (repo_node ''alpha'' (JInt 2048) (commits_ref 10) JNull [''Python''])
     = Inl TypeError"
  by (simp add: normalize_repo_def repo_node_def count_of_def commits_ref_def and_then_def
      languages_of_def repo_size_mb_of_def total_commits_of_def round2_div_1024_def py_join_def)

text \<open>
  C1: the loop should issue a further call, with the \<open>endCursor\<close> just received, whenever
  the response's \<open>hasNextPage\<close> is true. The code does so when the iteration runs to its
  end, but not at the two inputs below. Both are well-formed pages with \<open>hasNextPage\<close>
  true, received while five calls are left in the quota. In the first the reset time lies
  995 seconds in the past of the local clock: the wait is negative and \<open>time.sleep\<close> raises
  ValueError. In the second the reset time is far in the future: the wait does not fit
  a 64-bit count of nanoseconds and \<open>time.sleep\<close> raises OverflowError. Either way the
  handler breaks, and \<open>fetch_data\<close> returns after the single call.
\<close>

theorem next_page_flag_without_next_call:
  "get_path (page_json [node_alpha] (JBool True) (JStr ''c1''))
       [''data'', ''organization'', ''repositories'', ''pageInfo'', ''hasNextPage'']
     = Inr (JBool True)
   \<and> http_post env_past_reset 0 JNull
     = Returns (gql_response (page_json [node_alpha] (JBool True) (JStr ''c1''))
         (IntText 5) (IntText 1699999000))
   \<and> time_time env_past_reset 1 = 1700000000
   \<and> time_sleep (1699999000 - 1700000000 + 5) = Inl ValueError
   \<and> fetch_loop env_past_reset initial_state =
       Some \<lparr>has_next_page = JBool True, cursor = JStr ''c1'', repo_data = [row_alpha],
             posted = [JNull], clock_reads = 2, sleeps = []\<rparr>
   \<and> http_post env_far_reset 0 JNull
     = Returns (gql_response (page_json [node_alpha] (JBool True) (JStr ''c1''))
         (IntText 5) (IntText 1700000060000))
   \<and> time_time env_far_reset 1 = 1700000000
   \<and> time_sleep (1700000060000 - 1700000000 + 5) = Inl OverflowError
   \<and> fetch_loop env_far_reset initial_state =
       Some \<lparr>has_next_page = JBool True, cursor = JStr ''c1'', repo_data = [row_alpha],
             posted = [JNull], clock_reads = 2, sleeps = []\<rparr>"
proof -
  have t0: "truthy (has_next_page initial_state)" by (simp add: initial_state_def)
  have ne: "normalize_each [node_alpha] (repo_data initial_state) = (None, [row_alpha])"
    by (simp add: initial_state_def normalize_node_alpha)
  have s1: "time_sleep (1699999000 - 1700000000 + 5) = Inl ValueError"
    and s2: "time_sleep (1700000060000 - 1700000000 + 5) = Inl OverflowError"
    by (simp_all add: time_sleep_def)
  have f1: "float_of_int_ok 1699999000" and f2: "float_of_int_ok 1700000060000"
    by (simp_all add: float_of_int_ok_def)
  have "fetch_loop env_past_reset initial_state =
       Some \<lparr>has_next_page = JBool True, cursor = JStr ''c1'', repo_data = [row_alpha],
             posted = [JNull], clock_reads = 2, sleeps = []\<rparr>"
    using fetch_loop_sleep_raises [where env = env_past_reset and s = initial_state
        and nodes = "[node_alpha]" and flag = "JBool True" and c = "JStr ''c1''" and n = 5
        and reset = 1699999000 and acc = "[row_alpha]" and e = ValueError, OF t0 _ _ f1 ne] s1
    by (simp add: env_past_reset_def initial_state_def)
  moreover have "fetch_loop env_far_reset initial_state =
       Some \<lparr>has_next_page = JBool True, cursor = JStr ''c1'', repo_data = [row_alpha],
             posted = [JNull], clock_reads = 2, sleeps = []\<rparr>"
    using fetch_loop_sleep_raises [where env = env_far_reset and s = initial_state
        and nodes = "[node_alpha]" and flag = "JBool True" and c = "JStr ''c1''" and n = 5
        and reset = 1700000060000 and acc = "[row_alpha]" and e = OverflowError, OF t0 _ _ f2 ne] s2
    by (simp add: env_far_reset_def initial_state_def)
  moreover have "get_path (page_json [node_alpha] (JBool True) (JStr ''c1''))
       [''data'', ''organization'', ''repositories'', ''pageInfo'', ''hasNextPage'']
     = Inr (JBool True)"
    by (simp add: page_json_def and_then_def)
  ultimately show ?thesis
    using s1 s2 by (simp add: env_past_reset_def env_far_reset_def)
qed

text \<open>
  C8, as the code has it: a \<open>break\<close> (the \<open>errors\<close> key, any exception in the iteration, or
  a status other than 200) ends the loop at once; \<open>fetch_data\<close> returns the rows gathered
  so far, which extend those of the earlier pages; the main block writes the file exactly
  when that list is not empty, so that nothing is written when the condition occurs
  before any row was produced.
\<close>

theorem fatal_condition_ends_run:
  assumes "fetch_loop env initial_state = fetch_loop env s"
    and "truthy (has_next_page s)"
    and "loop_body env s = (Break, s')"
  shows "fetch_data env = Some (repo_data s')
       \<and> (\<exists>new. repo_data s' = repo_data s @ new)
       \<and> posted s' = posted s @ [cursor s]
       \<and> main_script org env =
           Some (if repo_data s' = [] then None else Some (write_csv org (repo_data s')))
       \<and> (\<forall>e t. try_body env s = (Inl e, t) \<longrightarrow> loop_body env s = (Break, t))
       \<and> (\<forall>response json_data.
             http_post env (length (posted s)) (cursor s) = Returns response
             \<and> status_code response = 200 \<and> json_of response = Inr json_data
             \<and> py_in_str ''errors'' json_data = Inr True \<longrightarrow>
             loop_body env s = (Break, s\<lparr>posted := posted s @ [cursor s]\<rparr>))"
proof (intro conjI allI impI; (elim conjE)?)
  have run: "fetch_loop env initial_state = Some s'"
    using assms(1) fetch_loop_break [OF assms(2,3)] by simp
  then show fd: "fetch_data env = Some (repo_data s')"
    by (simp add: fetch_data_def)
  show "\<exists>new. repo_data s' = repo_data s @ new"
    using loop_body_rows [of env s] assms(3) by simp
  show "posted s' = posted s @ [cursor s]"
    using loop_body_posted [of env s] assms(3) by simp
  show "main_script org env =
           Some (if repo_data s' = [] then None else Some (write_csv org (repo_data s')))"
    using fd by (simp add: main_script_def)
  {
    fix e t assume "try_body env s = (Inl e, t)"
    then show "loop_body env s = (Break, t)" by (simp add: loop_body_def)
  }
  {
    fix response json_data
    assume "http_post env (length (posted s)) (cursor s) = Returns response"
      "status_code response = 200" "json_of response = Inr json_data"
      "py_in_str ''errors'' json_data = Inr True"
    then have "try_body env s = (Inr Break, s\<lparr>posted := posted s @ [cursor s]\<rparr>)"
      by (rule try_body_errors)
    then show "loop_body env s = (Break, s\<lparr>posted := posted s @ [cursor s]\<rparr>)"
      by (simp add: loop_body_def)
  }
qed

theorem fatal_condition_ends_run_witness:
  "py_in_str ''errors'' errors_json = Inr True
   \<and> loop_body env_errors_first initial_state = (Break, initial_state\<lparr>posted := [JNull]\<rparr>)
   \<and> fetch_data env_errors_first = Some []
   \<and> main_script ''acme'' env_errors_first = Some None"
proof -
  have e: "py_in_str ''errors'' errors_json = Inr True" by (simp add: errors_json_def)
  have "try_body env_errors_first initial_state = (Inr Break, initial_state\<lparr>posted := [JNull]\<rparr>)"
    using try_body_errors [where env = env_errors_first and s = initial_state
        and response = "gql_response errors_json (IntText 4999) (IntText 1700003600)"
        and json_data = errors_json] e
    by (simp add: env_errors_first_def initial_state_def gql_response_def json_of_def)
  then have lb: "loop_body env_errors_first initial_state = (Break, initial_state\<lparr>posted := [JNull]\<rparr>)"
    by (simp add: loop_body_def)
  have t0: "truthy (has_next_page initial_state)" by (simp add: initial_state_def)
  from fatal_condition_ends_run [OF refl t0 lb, of "''acme''"] e lb
  show ?thesis by (simp add: initial_state_def)
qed

text \<open>
  A first page with one node, then a query-error payload on the second call: the run
  stops there, and the file is written with the row of the first page.
\<close>

theorem errors_on_second_page_still_writes:
  "py_in_str ''errors'' errors_json = Inr True
   \<and> http_post env_errors_second 1 (JStr ''c1'')
       = Returns (gql_response errors_json (IntText 4999) (IntText 1700003600))
   \<and> main_script ''acme'' env_errors_second =
       Some (Some \<lparr>csv_name = ''acme_repository_details.csv'', csv_header = row_keys,
                   csv_rows = [row_alpha]\<rparr>)"
proof -
  let ?s1 = "\<lparr>has_next_page = JBool True, cursor = JStr ''c1'', repo_data = [row_alpha],
              posted = [JNull], clock_reads = 0, sleeps = []\<rparr>"
  have e: "py_in_str ''errors'' errors_json = Inr True" by (simp add: errors_json_def)
  have "try_body env_errors_second initial_state = (Inr Next, ?s1)"
    using try_body_plain [where env = env_errors_second and s = initial_state
      and nodes = "[node_alpha]" and flag = "JBool True" and c = "JStr ''c1''" and n = 4999
      and reset = "IntText 1700003600" and acc = "[row_alpha]"]
    by (simp add: env_errors_second_def initial_state_def normalize_node_alpha)
  then have "loop_body env_errors_second initial_state = (Next, ?s1)"
    by (simp add: loop_body_def)
  then have a: "fetch_loop env_errors_second initial_state = fetch_loop env_errors_second ?s1"
    by (intro fetch_loop_next) (simp_all add: initial_state_def)
  have "try_body env_errors_second ?s1 = (Inr Break, ?s1\<lparr>posted := [JNull, JStr ''c1'']\<rparr>)"
    using try_body_errors [where env = env_errors_second and s = ?s1
        and response = "gql_response errors_json (IntText 4999) (IntText 1700003600)"
        and json_data = errors_json] e
    by (simp add: env_errors_second_def gql_response_def json_of_def)
  then have "loop_body env_errors_second ?s1 = (Break, ?s1\<lparr>posted := [JNull, JStr ''c1'']\<rparr>)"
    by (simp add: loop_body_def)
  then have "fetch_loop env_errors_second ?s1 = Some (?s1\<lparr>posted := [JNull, JStr ''c1'']\<rparr>)"
    by (intro fetch_loop_break) simp_all
  with a have "fetch_data env_errors_second = Some [row_alpha]"
    by (simp add: fetch_data_def)
  then have "main_script ''acme'' env_errors_second =
       Some (Some \<lparr>csv_name = ''acme_repository_details.csv'', csv_header = row_keys,
                   csv_rows = [row_alpha]\<rparr>)"
    by (simp add: main_script_def write_csv_def)
  with e show ?thesis by (simp add: env_errors_second_def)
qed


end
